theory Spec2Isabelle
  imports Main "HOL-Library.AList"
begin

section \<open>PresentationView: slide derivation and edit state\<close>

text \<open>
  A shallow embedding of \<^verbatim>\<open>src/components/PresentationView.tsx\<close>. The component keeps three
  pieces of React state (\<^verbatim>\<open>currentSlideIndex\<close>, \<^verbatim>\<open>isEditing\<close>, \<^verbatim>\<open>processedPresentation\<close>);
  every handler is modelled as a function from the state of the render it closes over to the
  state it sets, together with the calls it makes to its collaborators.

  Strings are \<^typ>\<open>string\<close>: one \<^typ>\<open>char\<close> stands for one code unit below 256. Code units
  above that range are outside this model.
\<close>

subsection \<open>Values\<close>

text \<open>
  A slide is built by an object literal and rewritten with a computed key
  (\<^verbatim>\<open>{...old, [field]: value}\<close>), so it is kept as what it is at run time: its own string-keyed
  properties in insertion order. The keys in play (\<^verbatim>\<open>title\<close>, \<^verbatim>\<open>content\<close>, \<^verbatim>\<open>imageUrl\<close>,
  \<^verbatim>\<open>style\<close>) are not array indices, so insertion order is the enumeration order.
\<close>

datatype jsval = JString string | JObject "(string \<times> jsval) list"

type_synonym slide = "(string \<times> jsval) list"

text \<open>
  The \<^verbatim>\<open>Presentation\<close> object is always written with the same four keys in the same order
  (lines 32-37, 57-62) and copied by spread with one key overwritten (lines 110-113, 149-152).
  An element of \<^verbatim>\<open>slides\<close> is \<open>None\<close> where the array holds \<^verbatim>\<open>undefined\<close> or a hole.
\<close>

record presentation =
  id' :: string
  createdAt :: string
  title :: string
  slides :: "slide option list"

text \<open>
  The props: \<open>result\<close> and \<open>source\<close> are the two fields of the \<^verbatim>\<open>presentation\<close> prop,
  \<open>title_prop\<close> is the \<^verbatim>\<open>title\<close> prop, and \<open>onSave_given\<close> says whether the optional
  \<^verbatim>\<open>onSave\<close> callback was passed.
\<close>

record props =
  result :: string
  source :: string
  title_prop :: string
  onSave_given :: bool

record view_state =
  currentSlideIndex :: int
  isEditing :: bool
  processedPresentation :: presentation

text \<open>What a handler does besides setting state.\<close>

datatype effect =
  OnSave presentation
  | Toast string string
  | Download string string

subsection \<open>Library functions the component calls\<close>

text \<open>
  \<^verbatim>\<open>String.prototype.split\<close> with a string separator: scan from the left; where the separator
  stands at the current position, close the block and continue behind the separator; at the
  end, close the last block. With the empty separator the string falls into its code units.
\<close>

function split_scan :: "string \<Rightarrow> string \<Rightarrow> string \<Rightarrow> string list" where
  "split_scan sep acc [] = [acc]"
| "split_scan sep acc (c # cs) =
     (if sep \<noteq> [] \<and> take (length sep) (c # cs) = sep
      then acc # split_scan sep [] (drop (length sep) (c # cs))
      else split_scan sep (acc @ [c]) cs)"
  by pat_completeness auto
termination
  by (relation "measure (\<lambda>(sep, acc, s). length s)") auto

definition js_split :: "string \<Rightarrow> string \<Rightarrow> string list" where
  "js_split sep s = (if sep = [] then map (\<lambda>c. [c]) s else split_scan sep [] s)"

text \<open>\<^verbatim>\<open>Array.prototype.join\<close>.\<close>

fun join :: "string \<Rightarrow> string list \<Rightarrow> string" where
  "join sep [] = []"
| "join sep [x] = x"
| "join sep (x # y # ys) = x @ sep @ join sep (y # ys)"

text \<open>A positive integer in a template literal: its decimal digits.\<close>

function decimal :: "nat \<Rightarrow> string" where
  "decimal n =
     (if n < 10 then [''0123456789'' ! n]
      else decimal (n div 10) @ [''0123456789'' ! (n mod 10)])"
  by pat_completeness auto
termination
  by (relation "measure id") auto

declare decimal.simps [simp del]

text \<open>
  The class \<^verbatim>\<open>\s\<close> of a regular expression, among the code units below 256: tab, line feed,
  vertical tab, form feed, carriage return, space and no-break space.
\<close>

definition is_space :: "char \<Rightarrow> bool" where
  "is_space c = ((of_char c :: nat) \<in> {9, 10, 11, 12, 13, 32, 160})"

text \<open>
  \<^verbatim>\<open>s.replace(/\s+/g, r)\<close>: at each position the greedy \<^verbatim>\<open>\s+\<close> either matches all the
  white space that starts there, which is replaced by \<open>r\<close>, or fails, and the code unit is
  kept.
\<close>

function replace_space_runs :: "string \<Rightarrow> string \<Rightarrow> string" where
  "replace_space_runs r [] = []"
| "replace_space_runs r (c # cs) =
     (if is_space c then r @ replace_space_runs r (dropWhile is_space cs)
      else c # replace_space_runs r cs)"
  by pat_completeness auto
termination
  by (relation "measure (\<lambda>(r, s). length s)")
    (auto simp: length_dropWhile_le less_Suc_eq_le)

text \<open>
  \<^verbatim>\<open>JSON.stringify\<close>, in two steps: the document a value serialises to, and its text. An
  \<^verbatim>\<open>undefined\<close> array element is written \<^verbatim>\<open>null\<close>.
\<close>

datatype json = JNull | JStr string | JArr "json list" | JObj "(string \<times> json) list"

primrec json_of_val :: "jsval \<Rightarrow> json" where
  "json_of_val (JString s) = JStr s"
| "json_of_val (JObject kvs) = JObj (map (map_prod id json_of_val) kvs)"

definition json_of_element :: "slide option \<Rightarrow> json" where
  "json_of_element e = (case e of None \<Rightarrow> JNull | Some obj \<Rightarrow> json_of_val (JObject obj))"

definition json_of_presentation :: "presentation \<Rightarrow> json" where
  "json_of_presentation p =
     JObj [(''id'', JStr (id' p)),
           (''createdAt'', JStr (createdAt p)),
           (''title'', JStr (title p)),
           (''slides'', JArr (map json_of_element (slides p)))]"

definition quote_char :: "char \<Rightarrow> string" where
  "quote_char c =
     (let n = (of_char c :: nat) in
      if n = 8 then [CHR 0x5C, CHR ''b'']
      else if n = 9 then [CHR 0x5C, CHR ''t'']
      else if n = 10 then [CHR 0x5C, CHR ''n'']
      else if n = 12 then [CHR 0x5C, CHR ''f'']
      else if n = 13 then [CHR 0x5C, CHR ''r'']
      else if n = 34 then [CHR 0x5C, CHR 0x22]
      else if n = 92 then [CHR 0x5C, CHR 0x5C]
      else if n < 32 then
        [CHR 0x5C, CHR ''u'', CHR ''0'', CHR ''0'',
         ''0123456789abcdef'' ! (n div 16), ''0123456789abcdef'' ! (n mod 16)]
      else [c])"

definition quote_json :: "string \<Rightarrow> string" where
  "quote_json s = [CHR 0x22] @ concat (map quote_char s) @ [CHR 0x22]"

primrec render :: "json \<Rightarrow> string" where
  "render JNull = ''null''"
| "render (JStr s) = quote_json s"
| "render (JArr xs) = ''['' @ join '','' (map render xs) @ '']''"
| "render (JObj kvs) =
     ''{'' @ join '','' (map (\<lambda>(k, v). quote_json k @ '':'' @ v) (map (map_prod id render) kvs))
       @ ''}''"

definition JSON_stringify :: "presentation \<Rightarrow> string" where
  "JSON_stringify p = render (json_of_presentation p)"

text \<open>
  \<^verbatim>\<open>encodeURIComponent\<close>: the unreserved characters stand for themselves, every other code
  unit is written as the percent-escaped bytes of its UTF-8 encoding (one byte below 128, two
  from 128 to 255).
\<close>

definition uri_unreserved :: "char \<Rightarrow> bool" where
  "uri_unreserved c =
     (c \<in> set (''ABCDEFGHIJKLMNOPQRSTUVWXYZabcdefghijklmnopqrstuvwxyz0123456789-_.!~*()''
               @ [CHR 0x27]))"

definition percent :: "nat \<Rightarrow> string" where
  "percent b = [CHR ''%'', ''0123456789ABCDEF'' ! (b div 16), ''0123456789ABCDEF'' ! (b mod 16)]"

definition encode_char :: "char \<Rightarrow> string" where
  "encode_char c =
     (let n = (of_char c :: nat) in
      if uri_unreserved c then [c]
      else if n < 128 then percent n
      else percent (192 + n div 64) @ percent (128 + n mod 64))"

definition encodeURIComponent :: "string \<Rightarrow> string" where
  "encodeURIComponent s = concat (map encode_char s)"

text \<open>
  Reading and writing an array element by a number. A read outside the array gives
  \<^verbatim>\<open>undefined\<close>. A write at or past the length extends the array, leaving holes; a write at a
  negative number names a property that is no element, so the elements stay as they are
  (that property itself is not kept in the model).
\<close>

definition array_get :: "'a option list \<Rightarrow> int \<Rightarrow> 'a option" where
  "array_get xs i = (if 0 \<le> i \<and> i < int (length xs) then xs ! nat i else None)"

definition array_set :: "'a option list \<Rightarrow> int \<Rightarrow> 'a option \<Rightarrow> 'a option list" where
  "array_set xs i v =
     (if i < 0 then xs
      else if i < int (length xs) then xs[nat i := v]
      else xs @ replicate (nat i - length xs) None @ [v])"

text \<open>Object spread of a value that may be \<^verbatim>\<open>undefined\<close>: its own properties, or none.\<close>

definition spread :: "slide option \<Rightarrow> slide" where
  "spread e = (case e of None \<Rightarrow> [] | Some obj \<Rightarrow> obj)"

subsection \<open>Slide derivation (lines 30-64)\<close>

definition initial_state :: "props \<Rightarrow> string \<Rightarrow> string \<Rightarrow> view_state" where
  "initial_state p uuid now =
     \<lparr>currentSlideIndex = 0, isEditing = False,
      processedPresentation =
        \<lparr>id' = uuid, createdAt = now, title = title_prop p, slides = []\<rparr>\<rparr>"

definition defaultTitle :: "props \<Rightarrow> string" where
  "defaultTitle p =
     (if source p \<noteq> [] \<and> source p \<noteq> ''gemini-api'' then source p else title_prop p)"

text \<open>A string is truthy when it is not empty, which is what \<^verbatim>\<open>filter(Boolean)\<close> keeps.\<close>

definition derive_slides :: "string \<Rightarrow> slide option list" where
  "derive_slides text =
     map (\<lambda>(index, content).
            Some [(''title'', JString (''Slide '' @ decimal (index + 1))),
                  (''content'', JString content),
                  (''imageUrl'', JString []),
                  (''style'', JObject [])])
         (enumerate 0 (filter (\<lambda>b. b \<noteq> []) (js_split ''\<newline>\<newline>'' text)))"

text \<open>
  The effect runs after the first render and after every render in which \<^verbatim>\<open>result\<close> or
  \<^verbatim>\<open>source\<close> changed. \<open>uuid\<close> and \<open>now\<close> are what \<^verbatim>\<open>uuidv4()\<close> and
  \<^verbatim>\<open>new Date().toISOString()\<close> return at that moment.
\<close>

definition slide_derivation_effect :: "props \<Rightarrow> string \<Rightarrow> string \<Rightarrow> view_state \<Rightarrow> view_state" where
  "slide_derivation_effect p uuid now s =
     s\<lparr>processedPresentation :=
         \<lparr>id' = uuid, createdAt = now, title = title_prop p,
          slides = derive_slides (result p)\<rparr>\<rparr>"

definition currentSlide :: "view_state \<Rightarrow> slide option" where
  "currentSlide s = array_get (slides (processedPresentation s)) (currentSlideIndex s)"

subsection \<open>Navigation (lines 68-76, 233)\<close>

definition goToPreviousSlide :: "view_state \<Rightarrow> view_state" where
  "goToPreviousSlide s =
     s\<lparr>currentSlideIndex :=
         (let prev = currentSlideIndex s in if prev > 0 then prev - 1 else prev)\<rparr>"

definition goToNextSlide :: "view_state \<Rightarrow> view_state" where
  "goToNextSlide s =
     s\<lparr>currentSlideIndex :=
         (let prev = currentSlideIndex s
          in if prev < int (length (slides (processedPresentation s))) - 1
             then prev + 1 else prev)\<rparr>"

text \<open>The slide dots call the state setter with the index they were drawn for.\<close>

definition setCurrentSlideIndex :: "int \<Rightarrow> view_state \<Rightarrow> view_state" where
  "setCurrentSlideIndex index s = s\<lparr>currentSlideIndex := index\<rparr>"

definition in_bounds :: "view_state \<Rightarrow> bool" where
  "in_bounds s =
     (0 \<le> currentSlideIndex s \<and>
      currentSlideIndex s \<le> int (length (slides (processedPresentation s))) - 1)"

subsection \<open>Export, edit toggle and field edits (lines 78-114, 149-152)\<close>

definition handleDownload :: "view_state \<Rightarrow> effect list" where
  "handleDownload s =
     (let dataStr = ''data:text/json;charset=utf-8,''
            @ encodeURIComponent (JSON_stringify (processedPresentation s))
      in [Download dataStr
            (replace_space_runs ''_'' (title (processedPresentation s)) @ ''.json'')])"

definition handleEditToggle :: "props \<Rightarrow> view_state \<Rightarrow> view_state \<times> effect list" where
  "handleEditToggle p s =
     (s\<lparr>isEditing := \<not> isEditing s\<rparr>,
      if isEditing s then
        (if onSave_given p then
           [OnSave (processedPresentation s),
            Toast ''Changes saved'' ''Your presentation has been updated successfully'']
         else [])
      else [])"

definition updateSlideContent :: "string \<Rightarrow> string \<Rightarrow> view_state \<Rightarrow> view_state" where
  "updateSlideContent field v s =
     (let updatedSlides = slides (processedPresentation s);
          updatedSlides' =
            array_set updatedSlides (currentSlideIndex s)
              (Some (AList.update field (JString v)
                       (spread (array_get updatedSlides (currentSlideIndex s)))))
      in s\<lparr>processedPresentation := (processedPresentation s)\<lparr>slides := updatedSlides'\<rparr>\<rparr>)"

text \<open>The title input of the card header.\<close>

definition title_onChange :: "string \<Rightarrow> view_state \<Rightarrow> view_state" where
  "title_onChange v s =
     s\<lparr>processedPresentation := (processedPresentation s)\<lparr>title := v\<rparr>\<rparr>"

subsection \<open>When the controls are on screen (lines 136-138, 146-157, 181-203, 216-273)\<close>

text \<open>
  With no slide the component returns its loading line and none of the controls. Otherwise
  the card is drawn from \<^verbatim>\<open>currentSlide\<close>: \<^verbatim>\<open>getSlideStyles\<close> reads \<^verbatim>\<open>currentSlide.style\<close>,
  which throws when there is no current slide, and in viewing mode the body is
  \<^verbatim>\<open>currentSlide.content.split(...)\<close>, which throws unless the content is a string.
\<close>

definition rendered :: "view_state \<Rightarrow> bool" where
  "rendered s =
     (slides (processedPresentation s) \<noteq> [] \<and>
      (case currentSlide s of
         None \<Rightarrow> False
       | Some sl \<Rightarrow>
           isEditing s \<or> (case map_of sl ''content'' of Some (JString c) \<Rightarrow> True | _ \<Rightarrow> False)))"

text \<open>
  The states the component can be in. It starts in its initial state; the effect runs after
  the first render and whenever the props change the text or the source; every other change
  of state comes from a control of the rendered card: the two arrows, one dot per slide, the
  edit button, and, in editing mode only, the title input and the two inputs of the current
  slide, which call \<open>updateSlideContent\<close> with the keys \<^verbatim>\<open>title\<close> and \<^verbatim>\<open>content\<close>.
\<close>

inductive reachable :: "view_state \<Rightarrow> bool" where
  first_render: "reachable (initial_state p uuid now)"
| rebuilt: "reachable s \<Longrightarrow> reachable (slide_derivation_effect p uuid now s)"
| go_previous: "reachable s \<Longrightarrow> rendered s \<Longrightarrow> reachable (goToPreviousSlide s)"
| go_next: "reachable s \<Longrightarrow> rendered s \<Longrightarrow> reachable (goToNextSlide s)"
| dot_clicked:
    "reachable s \<Longrightarrow> rendered s \<Longrightarrow> j < length (slides (processedPresentation s))
     \<Longrightarrow> reachable (setCurrentSlideIndex (int j) s)"
| toggled: "reachable s \<Longrightarrow> rendered s \<Longrightarrow> reachable (fst (handleEditToggle p s))"
| title_edited:
    "reachable s \<Longrightarrow> rendered s \<Longrightarrow> isEditing s \<Longrightarrow> reachable (title_onChange v s)"
| slide_edited:
    "reachable s \<Longrightarrow> rendered s \<Longrightarrow> isEditing s \<Longrightarrow> field = ''title'' \<or> field = ''content''
     \<Longrightarrow> reachable (updateSlideContent field v s)"

subsection \<open>The export as the specification words it\<close>

text \<open>
  The maximal runs of a string: stretches of white space and stretches of other characters,
  in turn.
\<close>

function space_runs :: "string \<Rightarrow> string list" where
  "space_runs [] = []"
| "space_runs (c # cs) =
     (if is_space c
      then (c # takeWhile is_space cs) # space_runs (dropWhile is_space cs)
      else (c # takeWhile (\<lambda>d. \<not> is_space d) cs)
             # space_runs (dropWhile (\<lambda>d. \<not> is_space d) cs))"
  by pat_completeness auto
termination
  by (relation "measure length") (auto simp: length_dropWhile_le less_Suc_eq_le)

text \<open>
  The file name of the specification: the title with every run of white space replaced by
  one underscore, and \<^verbatim>\<open>.json\<close> behind it.
\<close>

definition spec_filename :: "string \<Rightarrow> string" where
  "spec_filename t =
     concat (map (\<lambda>r. case r of [] \<Rightarrow> [] | c # cs \<Rightarrow> if is_space c then ''_'' else r)
               (space_runs t))
     @ ''.json''"

definition slide_keys :: "string list" where
  "slide_keys = [''title'', ''content'', ''imageUrl'', ''style'']"

definition is_object_with_keys :: "string list \<Rightarrow> json \<Rightarrow> bool" where
  "is_object_with_keys ks j = (case j of JObj kvs \<Rightarrow> map fst kvs = ks | _ \<Rightarrow> False)"

definition json_member :: "string \<Rightarrow> json \<Rightarrow> json option" where
  "json_member k j = (case j of JObj kvs \<Rightarrow> map_of kvs k | _ \<Rightarrow> None)"

definition full_slide :: "slide option \<Rightarrow> bool" where
  "full_slide e = (case e of None \<Rightarrow> False | Some obj \<Rightarrow> map fst obj = slide_keys)"

subsection \<open>Reading the exported text back\<close>

text \<open>
  A reader for JSON text as \<^verbatim>\<open>JSON.stringify\<close> writes it (no white space between tokens;
  \<^verbatim>\<open>null\<close>, strings, arrays and objects). It is written from the JSON grammar, not from
  \<open>render\<close>: a string runs from its opening quote to the next unescaped quote, a backslash
  introduces one of the eight short escapes or \<^verbatim>\<open>\u\<close> with four hexadecimal digits, and a raw
  control character is refused. An escape for a code unit above 255 is outside the model and
  is refused. The recursion is bounded by a counter that \<open>parse_json\<close> starts at the
  length of the text.
\<close>

definition hex_value :: "char \<Rightarrow> nat option" where
  "hex_value c =
     (let n = (of_char c :: nat) in
      if 48 \<le> n \<and> n \<le> 57 then Some (n - 48)
      else if 97 \<le> n \<and> n \<le> 102 then Some (n - 87)
      else if 65 \<le> n \<and> n \<le> 70 then Some (n - 55)
      else None)"

definition unescape :: "char \<Rightarrow> char option" where
  "unescape e =
     (if e = CHR 0x22 then Some (CHR 0x22)
      else if e = CHR 0x5C then Some (CHR 0x5C)
      else if e = CHR ''/'' then Some (CHR ''/'')
      else if e = CHR ''b'' then Some (CHR 0x08)
      else if e = CHR ''f'' then Some (CHR 0x0C)
      else if e = CHR ''n'' then Some (CHR 0x0A)
      else if e = CHR ''r'' then Some (CHR 0x0D)
      else if e = CHR ''t'' then Some (CHR 0x09)
      else None)"

fun parse_chars :: "string \<Rightarrow> (string \<times> string) option" where
  "parse_chars [] = None"
| "parse_chars (c # cs) =
     (if c = CHR 0x22 then Some ([], cs)
      else if c = CHR 0x5C then
        (case cs of
           [] \<Rightarrow> None
         | e # es \<Rightarrow>
             if e = CHR ''u'' then
               (case es of
                  h1 # h2 # h3 # h4 # rest \<Rightarrow>
                    (case (hex_value h1, hex_value h2, hex_value h3, hex_value h4) of
                       (Some a, Some b, Some x, Some y) \<Rightarrow>
                         if a = 0 \<and> b = 0 then
                           (case parse_chars rest of
                              None \<Rightarrow> None
                            | Some (s, r) \<Rightarrow> Some (char_of (16 * x + y) # s, r))
                         else None
                     | _ \<Rightarrow> None)
                | _ \<Rightarrow> None)
             else
               (case unescape e of
                  None \<Rightarrow> None
                | Some ch \<Rightarrow>
                    (case parse_chars es of
                       None \<Rightarrow> None
                     | Some (s, r) \<Rightarrow> Some (ch # s, r))))
      else if (of_char c :: nat) < 32 then None
      else (case parse_chars cs of None \<Rightarrow> None | Some (s, r) \<Rightarrow> Some (c # s, r)))"

fun parse_value :: "nat \<Rightarrow> string \<Rightarrow> (json \<times> string) option"
  and parse_elements :: "nat \<Rightarrow> string \<Rightarrow> (json list \<times> string) option"
  and parse_members :: "nat \<Rightarrow> string \<Rightarrow> ((string \<times> json) list \<times> string) option" where
  "parse_value 0 s = None"
| "parse_value (Suc f) s =
     (case s of
        [] \<Rightarrow> None
      | c # cs \<Rightarrow>
          if c = CHR ''n'' then
            (if take 3 cs = ''ull'' then Some (JNull, drop 3 cs) else None)
          else if c = CHR 0x22 then
            (case parse_chars cs of None \<Rightarrow> None | Some (str, r) \<Rightarrow> Some (JStr str, r))
          else if c = CHR ''['' then
            (case cs of
               [] \<Rightarrow> None
             | d # ds \<Rightarrow>
                 if d = CHR '']'' then Some (JArr [], ds)
                 else (case parse_elements f cs of
                         None \<Rightarrow> None
                       | Some (xs, r) \<Rightarrow> Some (JArr xs, r)))
          else if c = CHR ''{'' then
            (case cs of
               [] \<Rightarrow> None
             | d # ds \<Rightarrow>
                 if d = CHR ''}'' then Some (JObj [], ds)
                 else (case parse_members f cs of
                         None \<Rightarrow> None
                       | Some (kvs, r) \<Rightarrow> Some (JObj kvs, r)))
          else None)"
| "parse_elements 0 s = None"
| "parse_elements (Suc f) s =
     (case parse_value f s of
        None \<Rightarrow> None
      | Some (x, r) \<Rightarrow>
          (case r of
             [] \<Rightarrow> None
           | d # ds \<Rightarrow>
               if d = CHR '','' then
                 (case parse_elements f ds of
                    None \<Rightarrow> None
                  | Some (xs, r') \<Rightarrow> Some (x # xs, r'))
               else if d = CHR '']'' then Some ([x], ds)
               else None))"
| "parse_members 0 s = None"
| "parse_members (Suc f) s =
     (case s of
        [] \<Rightarrow> None
      | q # cs \<Rightarrow>
          if q \<noteq> CHR 0x22 then None
          else
            (case parse_chars cs of
               None \<Rightarrow> None
             | Some (k, r) \<Rightarrow>
                 (case r of
                    [] \<Rightarrow> None
                  | col # r1 \<Rightarrow>
                      if col \<noteq> CHR '':'' then None
                      else
                        (case parse_value f r1 of
                           None \<Rightarrow> None
                         | Some (v, r2) \<Rightarrow>
                             (case r2 of
                                [] \<Rightarrow> None
                              | d # ds \<Rightarrow>
                                  if d = CHR '','' then
                                    (case parse_members f ds of
                                       None \<Rightarrow> None
                                     | Some (kvs, r3) \<Rightarrow> Some ((k, v) # kvs, r3))
                                  else if d = CHR ''}'' then Some ([(k, v)], ds)
                                  else None)))))"

definition parse_json :: "string \<Rightarrow> json option" where
  "parse_json s = (case parse_value (length s) s of Some (j, []) \<Rightarrow> Some j | _ \<Rightarrow> None)"

text \<open>
  A reader for percent-encoded text: a percent sign and two hexadecimal digits give a byte,
  bytes are read as UTF-8 (one byte below 128, two bytes for the code units from 128 to
  255), and every other character stands for itself.
\<close>

fun decodeURIComponent :: "string \<Rightarrow> string option" where
  "decodeURIComponent [] = Some []"
| "decodeURIComponent (c # cs) =
     (if c \<noteq> CHR ''%'' then
        (case decodeURIComponent cs of None \<Rightarrow> None | Some s \<Rightarrow> Some (c # s))
      else
        (case cs of
           h1 # h2 # rest \<Rightarrow>
             (case (hex_value h1, hex_value h2) of
                (Some a, Some b) \<Rightarrow>
                  if 16 * a + b < 128 then
                    (case decodeURIComponent rest of
                       None \<Rightarrow> None
                     | Some s \<Rightarrow> Some (char_of (16 * a + b) # s))
                  else if 16 * a + b = 194 \<or> 16 * a + b = 195 then
                    (case rest of
                       p # h3 # h4 # rest' \<Rightarrow>
                         (case (hex_value h3, hex_value h4) of
                            (Some x, Some y) \<Rightarrow>
                              if p = CHR ''%'' \<and> 128 \<le> 16 * x + y \<and> 16 * x + y < 192 then
                                (case decodeURIComponent rest' of
                                   None \<Rightarrow> None
                                 | Some s \<Rightarrow>
                                     Some (char_of ((16 * a + b - 192) * 64 + (16 * x + y - 128)) # s))
                              else None
                          | _ \<Rightarrow> None)
                     | _ \<Rightarrow> None)
                  else None
              | _ \<Rightarrow> None)
         | _ \<Rightarrow> None))"

text \<open>One member of an object as the text writes it.\<close>

definition member_text :: "string \<times> json \<Rightarrow> string" where
  "member_text kv = quote_json (fst kv) @ CHR '':'' # render (snd kv)"

subsection \<open>Observations and a sample session\<close>

text \<open>The presentations handed to \<^verbatim>\<open>onSave\<close>, in call order.\<close>

fun commits :: "effect list \<Rightarrow> presentation list" where
  "commits [] = []"
| "commits (OnSave q # es) = q # commits es"
| "commits (Toast a b # es) = commits es"
| "commits (Download a b # es) = commits es"

text \<open>What a slide element holds under a key, if anything.\<close>

definition field_of :: "string \<Rightarrow> slide option \<Rightarrow> jsval option" where
  "field_of k e = map_of (spread e) k"

text \<open>Whether \<open>sep\<close> stands somewhere in a string.\<close>

fun occurs :: "string \<Rightarrow> string \<Rightarrow> bool" where
  "occurs sep [] = (sep = [])"
| "occurs sep (c # cs) = (take (length sep) (c # cs) = sep \<or> occurs sep cs)"

text \<open>The number a string of decimal digits denotes.\<close>

definition digits_value :: "string \<Rightarrow> nat" where
  "digits_value ds = foldl (\<lambda>a c. 10 * a + (of_char c - 48)) 0 ds"

text \<open>The component mounted with the specification's sample text.\<close>

definition demo_props :: props where
  "demo_props =
     \<lparr>result = ''Intro text\<newline>\<newline>Second point\<newline>\<newline>\<newline>Third point'',
      source = ''gemini-api'', title_prop = ''Demo'', onSave_given = True\<rparr>"

definition demo_state :: view_state where
  "demo_state =
     slide_derivation_effect demo_props ''id-2'' ''t2'' (initial_state demo_props ''id-1'' ''t1'')"

text \<open>The sample session after the edit button and a new title typed into the title input.\<close>

definition demo_edited :: view_state where
  "demo_edited = title_onChange ''My  Talk'' (fst (handleEditToggle demo_props demo_state))"

section \<open>The sample session\<close>

lemma demo_slides:
  "slides (processedPresentation demo_state) =
     [Some [(''title'', JString ''Slide 1''), (''content'', JString ''Intro text''),
            (''imageUrl'', JString []), (''style'', JObject [])],
      Some [(''title'', JString ''Slide 2''), (''content'', JString ''Second point''),
            (''imageUrl'', JString []), (''style'', JObject [])],
      Some [(''title'', JString ''Slide 3''), (''content'', JString ''\<newline>Third point''),
            (''imageUrl'', JString []), (''style'', JObject [])]]"
  by (simp add: demo_state_def demo_props_def slide_derivation_effect_def derive_slides_def
      js_split_def enumerate_eq_zip decimal.simps)

lemma demo_state_fields:
  "currentSlideIndex demo_state = 0" "isEditing demo_state = False"
  "id' (processedPresentation demo_state) = ''id-2''"
  "createdAt (processedPresentation demo_state) = ''t2''"
  "title (processedPresentation demo_state) = ''Demo''"
  by (simp_all add: demo_state_def demo_props_def slide_derivation_effect_def initial_state_def)

section \<open>Navigation stays in range\<close>

lemma goToPreviousSlide_index:
  "currentSlideIndex (goToPreviousSlide s) = max 0 (currentSlideIndex s - 1)"
  if "0 \<le> currentSlideIndex s"
  using that by (simp add: goToPreviousSlide_def Let_def)

lemma goToNextSlide_index:
  "currentSlideIndex (goToNextSlide s) =
     min (int (length (slides (processedPresentation s))) - 1) (currentSlideIndex s + 1)"
  if "currentSlideIndex s \<le> int (length (slides (processedPresentation s))) - 1"
  using that by (simp add: goToNextSlide_def Let_def)

lemma goToNextSlide_presentation:
  "processedPresentation (goToNextSlide s) = processedPresentation s"
  by (simp add: goToNextSlide_def)

lemma goToPreviousSlide_presentation:
  "processedPresentation (goToPreviousSlide s) = processedPresentation s"
  by (simp add: goToPreviousSlide_def)

text \<open>
  C4. On a non-empty deck with the index in range, \<open>goToPreviousSlide\<close> and \<open>goToNextSlide\<close>
  move the index by one, clamped to the range: the new index is \<open>max 0 (i - 1)\<close> and
  \<open>min (n - 1) (i + 1)\<close>. At the first slide and at the last slide they change nothing, so a
  repeated call there changes nothing either; they never wrap, and the index stays in range.
\<close>

theorem navigation_clamped:
  assumes "slides (processedPresentation s) \<noteq> []" and "in_bounds s"
  shows "currentSlideIndex (goToPreviousSlide s) = max 0 (currentSlideIndex s - 1)
       \<and> currentSlideIndex (goToNextSlide s)
           = min (int (length (slides (processedPresentation s))) - 1) (currentSlideIndex s + 1)
       \<and> (if currentSlideIndex s = 0 then goToPreviousSlide s = s
           else currentSlideIndex (goToPreviousSlide s) = currentSlideIndex s - 1)
       \<and> (if currentSlideIndex s = int (length (slides (processedPresentation s))) - 1
           then goToNextSlide s = s
           else currentSlideIndex (goToNextSlide s) = currentSlideIndex s + 1)
       \<and> goToPreviousSlide (goToPreviousSlide (s\<lparr>currentSlideIndex := 0\<rparr>))
           = s\<lparr>currentSlideIndex := 0\<rparr>
       \<and> goToNextSlide (goToNextSlide
             (s\<lparr>currentSlideIndex := int (length (slides (processedPresentation s))) - 1\<rparr>))
           = s\<lparr>currentSlideIndex := int (length (slides (processedPresentation s))) - 1\<rparr>
       \<and> in_bounds (goToPreviousSlide s) \<and> in_bounds (goToNextSlide s)"
proof -
  from assms(2) have lo: "0 \<le> currentSlideIndex s"
    and hi: "currentSlideIndex s \<le> int (length (slides (processedPresentation s))) - 1"
    by (simp_all add: in_bounds_def)
  have prev: "currentSlideIndex (goToPreviousSlide s) = max 0 (currentSlideIndex s - 1)"
    by (rule goToPreviousSlide_index [OF lo])
  have nxt: "currentSlideIndex (goToNextSlide s)
      = min (int (length (slides (processedPresentation s))) - 1) (currentSlideIndex s + 1)"
    by (rule goToNextSlide_index [OF hi])
  have first: "if currentSlideIndex s = 0 then goToPreviousSlide s = s
      else currentSlideIndex (goToPreviousSlide s) = currentSlideIndex s - 1"
    using lo by (simp add: goToPreviousSlide_def Let_def)
  have last: "if currentSlideIndex s = int (length (slides (processedPresentation s))) - 1
      then goToNextSlide s = s
      else currentSlideIndex (goToNextSlide s) = currentSlideIndex s + 1"
    using hi by (simp add: goToNextSlide_def Let_def)
  have twice_first: "goToPreviousSlide (goToPreviousSlide (s\<lparr>currentSlideIndex := 0\<rparr>))
      = s\<lparr>currentSlideIndex := 0\<rparr>"
    by (simp add: goToPreviousSlide_def)
  have twice_last: "goToNextSlide (goToNextSlide
        (s\<lparr>currentSlideIndex := int (length (slides (processedPresentation s))) - 1\<rparr>))
      = s\<lparr>currentSlideIndex := int (length (slides (processedPresentation s))) - 1\<rparr>"
    by (simp add: goToNextSlide_def)
  have bp: "in_bounds (goToPreviousSlide s)"
    using lo hi by (auto simp: in_bounds_def goToPreviousSlide_def Let_def)
  have bn: "in_bounds (goToNextSlide s)"
    using lo hi by (auto simp: in_bounds_def goToNextSlide_def Let_def)
  from prev nxt first last twice_first twice_last bp bn show ?thesis
    by (intro conjI)
qed

theorem navigation_clamped_witness:
  "slides (processedPresentation (setCurrentSlideIndex 1 demo_state)) \<noteq> []
   \<and> in_bounds (setCurrentSlideIndex 1 demo_state)
   \<and> currentSlideIndex (goToPreviousSlide (setCurrentSlideIndex 1 demo_state)) = 0
   \<and> currentSlideIndex (goToNextSlide (setCurrentSlideIndex 1 demo_state)) = 2"
proof -
  have ne: "slides (processedPresentation (setCurrentSlideIndex 1 demo_state)) \<noteq> []"
    by (simp add: setCurrentSlideIndex_def demo_slides)
  have ib: "in_bounds (setCurrentSlideIndex 1 demo_state)"
    by (simp add: in_bounds_def setCurrentSlideIndex_def demo_slides)
  from navigation_clamped [OF ne ib] ne ib show ?thesis
    by (simp add: setCurrentSlideIndex_def demo_slides)
qed

section \<open>Navigation changes the index only\<close>

text \<open>
  C10. \<open>goToPreviousSlide\<close> and \<open>goToNextSlide\<close> leave the live presentation (its id,
  creation time, title and every slide) and the edit flag as they were, in every state: the
  state after the call is the state before it with a new \<open>currentSlideIndex\<close>.
\<close>

theorem navigation_frame:
  "processedPresentation (goToPreviousSlide s) = processedPresentation s
   \<and> processedPresentation (goToNextSlide s) = processedPresentation s
   \<and> isEditing (goToPreviousSlide s) = isEditing s
   \<and> isEditing (goToNextSlide s) = isEditing s
   \<and> goToPreviousSlide s = s\<lparr>currentSlideIndex := currentSlideIndex (goToPreviousSlide s)\<rparr>
   \<and> goToNextSlide s = s\<lparr>currentSlideIndex := currentSlideIndex (goToNextSlide s)\<rparr>"
  by (simp add: goToPreviousSlide_def goToNextSlide_def)

section \<open>The stored title\<close>

text \<open>
  C9. Whatever the text, the source identifier and the title passed in, the presentation the
  component stores carries the title passed in, at the first render and after every slide
  derivation. The value of \<open>defaultTitle\<close> is not used: the stored title equals it only
  where the two coincide anyway (no source, the source \<^verbatim>\<open>gemini-api\<close>, or a source equal to
  the title), and the derivation gives the same state for every source identifier.
\<close>

theorem stored_title_is_title_prop:
  "title (processedPresentation (slide_derivation_effect p uuid now s)) = title_prop p
   \<and> title (processedPresentation (initial_state p uuid now)) = title_prop p
   \<and> (title (processedPresentation (slide_derivation_effect p uuid now s)) = defaultTitle p)
       = (source p = [] \<or> source p = ''gemini-api'' \<or> source p = title_prop p)
   \<and> slide_derivation_effect (p\<lparr>source := src\<rparr>) uuid now s
       = slide_derivation_effect p uuid now s"
  by (auto simp: slide_derivation_effect_def initial_state_def defaultTitle_def)

section \<open>What a new derivation resets\<close>

text \<open>
  C2, as stated, fails: the effect sets \<open>processedPresentation\<close> and nothing else. In the
  sample session, move to the third slide, enter edit mode, and let the text change to
  another three blocks: the index is still 2 and the edit flag is still on.
\<close>

theorem rebuild_resets_counterexample:
  "currentSlideIndex
     (slide_derivation_effect (demo_props\<lparr>result := ''A\<newline>\<newline>B\<newline>\<newline>C''\<rparr>) ''id-3'' ''t3''
        (fst (handleEditToggle demo_props (setCurrentSlideIndex 2 demo_state)))) = 2
   \<and> isEditing
     (slide_derivation_effect (demo_props\<lparr>result := ''A\<newline>\<newline>B\<newline>\<newline>C''\<rparr>) ''id-3'' ''t3''
        (fst (handleEditToggle demo_props (setCurrentSlideIndex 2 demo_state))))
   \<and> length (slides (processedPresentation
     (slide_derivation_effect (demo_props\<lparr>result := ''A\<newline>\<newline>B\<newline>\<newline>C''\<rparr>) ''id-3'' ''t3''
        (fst (handleEditToggle demo_props (setCurrentSlideIndex 2 demo_state)))))) = 3"
  by (simp add: slide_derivation_effect_def handleEditToggle_def setCurrentSlideIndex_def
      demo_state_fields demo_props_def derive_slides_def js_split_def enumerate_eq_zip)

text \<open>
  The index is kept in the same way when the new deck is shorter than the index. That is a
  defect of the component, not a behaviour to rely on: every handler keeps the index inside
  the deck and the card is drawn from \<^verbatim>\<open>slides[currentSlideIndex]\<close> without a check, so after
  a change from three blocks to one with the index at 2 there is no current slide and the
  next render throws in \<^verbatim>\<open>getSlideStyles\<close> (line 117). The state is reachable.
\<close>

lemma stale_index_after_rebuild:
  "reachable
     (slide_derivation_effect (demo_props\<lparr>result := ''Only one''\<rparr>) ''id-3'' ''t3''
        (fst (handleEditToggle demo_props (setCurrentSlideIndex 2 demo_state))))"
  "currentSlide
     (slide_derivation_effect (demo_props\<lparr>result := ''Only one''\<rparr>) ''id-3'' ''t3''
        (fst (handleEditToggle demo_props (setCurrentSlideIndex 2 demo_state)))) = None"
  "slides (processedPresentation
     (slide_derivation_effect (demo_props\<lparr>result := ''Only one''\<rparr>) ''id-3'' ''t3''
        (fst (handleEditToggle demo_props (setCurrentSlideIndex 2 demo_state))))) \<noteq> []"
  "\<not> rendered
     (slide_derivation_effect (demo_props\<lparr>result := ''Only one''\<rparr>) ''id-3'' ''t3''
        (fst (handleEditToggle demo_props (setCurrentSlideIndex 2 demo_state))))"
proof -
  have r0: "reachable demo_state"
    unfolding demo_state_def by (rule reachable.rebuilt [OF reachable.first_render])
  have v0: "rendered demo_state"
    by (simp add: rendered_def currentSlide_def array_get_def demo_slides demo_state_fields)
  have r1: "reachable (setCurrentSlideIndex (int 2) demo_state)"
    by (rule reachable.dot_clicked [OF r0 v0]) (simp add: demo_slides)
  have v1: "rendered (setCurrentSlideIndex (int 2) demo_state)"
    by (simp add: rendered_def currentSlide_def array_get_def setCurrentSlideIndex_def
        demo_slides demo_state_fields)
  have "reachable (fst (handleEditToggle demo_props (setCurrentSlideIndex (int 2) demo_state)))"
    by (rule reachable.toggled [OF r1 v1])
  then have "reachable
     (slide_derivation_effect (demo_props\<lparr>result := ''Only one''\<rparr>) ''id-3'' ''t3''
        (fst (handleEditToggle demo_props (setCurrentSlideIndex (int 2) demo_state))))"
    by (rule reachable.rebuilt)
  then show "reachable
     (slide_derivation_effect (demo_props\<lparr>result := ''Only one''\<rparr>) ''id-3'' ''t3''
        (fst (handleEditToggle demo_props (setCurrentSlideIndex 2 demo_state))))"
    by simp
  show "currentSlide
     (slide_derivation_effect (demo_props\<lparr>result := ''Only one''\<rparr>) ''id-3'' ''t3''
        (fst (handleEditToggle demo_props (setCurrentSlideIndex 2 demo_state)))) = None"
    by (simp add: currentSlide_def array_get_def slide_derivation_effect_def
        handleEditToggle_def setCurrentSlideIndex_def demo_props_def derive_slides_def
        js_split_def enumerate_eq_zip)
  show "slides (processedPresentation
     (slide_derivation_effect (demo_props\<lparr>result := ''Only one''\<rparr>) ''id-3'' ''t3''
        (fst (handleEditToggle demo_props (setCurrentSlideIndex 2 demo_state))))) \<noteq> []"
    by (simp add: slide_derivation_effect_def demo_props_def derive_slides_def js_split_def
        enumerate_eq_zip)
  show "\<not> rendered
     (slide_derivation_effect (demo_props\<lparr>result := ''Only one''\<rparr>) ''id-3'' ''t3''
        (fst (handleEditToggle demo_props (setCurrentSlideIndex 2 demo_state))))"
    by (simp add: rendered_def currentSlide_def array_get_def slide_derivation_effect_def
        handleEditToggle_def setCurrentSlideIndex_def demo_props_def derive_slides_def
        js_split_def enumerate_eq_zip)
qed

text \<open>
  C2, amended. The slide derivation replaces the live presentation wholesale: the new one
  is made of the fresh id, the fresh time, the title passed in and the slides derived from
  the text, and it is the same whatever the previous presentation held, so edits made on the
  previous deck are gone. The edit flag is left as it was. Where \<open>currentSlideIndex\<close> is
  still an index of the new deck, it is left as it was and is in bounds. Nothing is said here
  of an index that the new deck no longer has.
\<close>

theorem slide_derivation_replaces_presentation:
  "processedPresentation (slide_derivation_effect p uuid now s)
     = \<lparr>id' = uuid, createdAt = now, title = title_prop p, slides = derive_slides (result p)\<rparr>
   \<and> slide_derivation_effect p uuid now (s\<lparr>processedPresentation := q\<rparr>)
     = slide_derivation_effect p uuid now s
   \<and> isEditing (slide_derivation_effect p uuid now s) = isEditing s
   \<and> (0 \<le> currentSlideIndex s
        \<and> currentSlideIndex s < int (length (derive_slides (result p)))
       \<longrightarrow> currentSlideIndex (slide_derivation_effect p uuid now s) = currentSlideIndex s
           \<and> in_bounds (slide_derivation_effect p uuid now s))"
  by (auto simp: slide_derivation_effect_def in_bounds_def)

theorem slide_derivation_replaces_presentation_witness:
  "0 \<le> currentSlideIndex (fst (handleEditToggle demo_props (setCurrentSlideIndex 2 demo_state)))
   \<and> currentSlideIndex (fst (handleEditToggle demo_props (setCurrentSlideIndex 2 demo_state)))
       < int (length (derive_slides (result (demo_props\<lparr>result := ''A\<newline>\<newline>B\<newline>\<newline>C''\<rparr>))))
   \<and> currentSlideIndex
        (slide_derivation_effect (demo_props\<lparr>result := ''A\<newline>\<newline>B\<newline>\<newline>C''\<rparr>) ''id-3'' ''t3''
          (fst (handleEditToggle demo_props (setCurrentSlideIndex 2 demo_state)))) = 2
   \<and> in_bounds
        (slide_derivation_effect (demo_props\<lparr>result := ''A\<newline>\<newline>B\<newline>\<newline>C''\<rparr>) ''id-3'' ''t3''
          (fst (handleEditToggle demo_props (setCurrentSlideIndex 2 demo_state))))
   \<and> map (field_of ''content'') (slides (processedPresentation
        (slide_derivation_effect (demo_props\<lparr>result := ''A\<newline>\<newline>B\<newline>\<newline>C''\<rparr>) ''id-3'' ''t3''
          (updateSlideContent ''content'' ''Edited''
            (fst (handleEditToggle demo_props (setCurrentSlideIndex 2 demo_state)))))))
     = [Some (JString ''A''), Some (JString ''B''), Some (JString ''C'')]"
proof -
  have idx: "currentSlideIndex
      (fst (handleEditToggle demo_props (setCurrentSlideIndex 2 demo_state))) = 2"
    by (simp add: handleEditToggle_def setCurrentSlideIndex_def)
  have len: "length (derive_slides (result (demo_props\<lparr>result := ''A\<newline>\<newline>B\<newline>\<newline>C''\<rparr>))) = 3"
    by (simp add: derive_slides_def js_split_def enumerate_eq_zip)
  have new: "map (field_of ''content'')
      (derive_slides (result (demo_props\<lparr>result := ''A\<newline>\<newline>B\<newline>\<newline>C''\<rparr>)))
      = [Some (JString ''A''), Some (JString ''B''), Some (JString ''C'')]"
    by (simp add: derive_slides_def js_split_def enumerate_eq_zip field_of_def spread_def)
  from slide_derivation_replaces_presentation
    [of "demo_props\<lparr>result := ''A\<newline>\<newline>B\<newline>\<newline>C''\<rparr>" "''id-3''" "''t3''"
      "fst (handleEditToggle demo_props (setCurrentSlideIndex 2 demo_state))"
      "processedPresentation (updateSlideContent ''content'' ''Edited''
         (fst (handleEditToggle demo_props (setCurrentSlideIndex 2 demo_state))))"]
  have kept: "currentSlideIndex
        (slide_derivation_effect (demo_props\<lparr>result := ''A\<newline>\<newline>B\<newline>\<newline>C''\<rparr>) ''id-3'' ''t3''
          (fst (handleEditToggle demo_props (setCurrentSlideIndex 2 demo_state)))) = 2
      \<and> in_bounds
        (slide_derivation_effect (demo_props\<lparr>result := ''A\<newline>\<newline>B\<newline>\<newline>C''\<rparr>) ''id-3'' ''t3''
          (fst (handleEditToggle demo_props (setCurrentSlideIndex 2 demo_state))))"
    using idx len by simp
  have edited: "map (field_of ''content'') (slides (processedPresentation
        (slide_derivation_effect (demo_props\<lparr>result := ''A\<newline>\<newline>B\<newline>\<newline>C''\<rparr>) ''id-3'' ''t3''
          (updateSlideContent ''content'' ''Edited''
            (fst (handleEditToggle demo_props (setCurrentSlideIndex 2 demo_state)))))))
     = [Some (JString ''A''), Some (JString ''B''), Some (JString ''C'')]"
    using new by (simp add: slide_derivation_effect_def)
  from kept edited idx len show ?thesis
    by simp
qed

section \<open>Jumping to a slide\<close>

text \<open>
  C3, as stated, fails: the setter stores the number it is given. On the sample deck of
  three slides, 5 and -1 are stored as they are, and the index is then out of bounds.
\<close>

theorem jump_clamps_counterexample:
  "currentSlideIndex (setCurrentSlideIndex 5 demo_state) = 5
   \<and> \<not> in_bounds (setCurrentSlideIndex 5 demo_state)
   \<and> currentSlideIndex (setCurrentSlideIndex (- 1) demo_state) = - 1
   \<and> \<not> in_bounds (setCurrentSlideIndex (- 1) demo_state)"
  by (simp add: setCurrentSlideIndex_def in_bounds_def demo_slides)

text \<open>
  C3, amended. \<open>setCurrentSlideIndex\<close> stores the index it is given, unclamped, and touches
  nothing else; the index is in bounds afterwards exactly when the given index is one of
  \<open>0, \<dots>, slides.length - 1\<close>, which are the indices the slide dots are drawn for.
\<close>

theorem setCurrentSlideIndex_stores_index:
  "currentSlideIndex (setCurrentSlideIndex index s) = index
   \<and> processedPresentation (setCurrentSlideIndex index s) = processedPresentation s
   \<and> isEditing (setCurrentSlideIndex index s) = isEditing s
   \<and> in_bounds (setCurrentSlideIndex index s)
       = (0 \<le> index \<and> index < int (length (slides (processedPresentation s))))"
  by (auto simp: setCurrentSlideIndex_def in_bounds_def)

section \<open>The edit toggle\<close>

lemma updateSlideContent_isEditing:
  "isEditing (updateSlideContent field v s) = isEditing s"
  by (simp add: updateSlideContent_def Let_def)

text \<open>
  C6, as stated, fails where no \<^verbatim>\<open>onSave\<close> was passed (the prop is optional and the call is
  guarded): leaving edit mode then commits nothing.
\<close>

theorem toggle_commits_counterexample:
  "isEditing (fst (handleEditToggle (demo_props\<lparr>onSave_given := False\<rparr>) demo_state))
   \<and> commits (snd (handleEditToggle (demo_props\<lparr>onSave_given := False\<rparr>)
        (fst (handleEditToggle (demo_props\<lparr>onSave_given := False\<rparr>) demo_state)))) = []
   \<and> \<not> isEditing (fst (handleEditToggle (demo_props\<lparr>onSave_given := False\<rparr>)
        (fst (handleEditToggle (demo_props\<lparr>onSave_given := False\<rparr>) demo_state))))"
  by (simp add: handleEditToggle_def demo_state_fields)

text \<open>
  C6, amended. \<open>handleEditToggle\<close> flips the edit flag and changes nothing else. From
  viewing it calls nobody. From editing it hands the current live presentation to \<^verbatim>\<open>onSave\<close>
  exactly once when \<^verbatim>\<open>onSave\<close> was passed, and calls nobody when it was not. So two
  toggles in a row from viewing, with a field edit in between, make exactly one commit when
  \<^verbatim>\<open>onSave\<close> was passed, and the committed presentation is the edited one.
\<close>

theorem handleEditToggle_commits:
  "fst (handleEditToggle p s) = s\<lparr>isEditing := \<not> isEditing s\<rparr>
   \<and> commits (snd (handleEditToggle p s))
       = (if isEditing s \<and> onSave_given p then [processedPresentation s] else [])
   \<and> commits (snd (handleEditToggle p (s\<lparr>isEditing := False\<rparr>)))
       @ commits (snd (handleEditToggle p
           (updateSlideContent field v (fst (handleEditToggle p (s\<lparr>isEditing := False\<rparr>))))))
       = (if onSave_given p
          then [processedPresentation (updateSlideContent field v (s\<lparr>isEditing := True\<rparr>))]
          else [])
   \<and> commits (snd (handleEditToggle p (s\<lparr>isEditing := False\<rparr>)))
       @ commits (snd (handleEditToggle p (fst (handleEditToggle p (s\<lparr>isEditing := False\<rparr>)))))
       = (if onSave_given p then [processedPresentation s] else [])"
  by (simp add: handleEditToggle_def updateSlideContent_isEditing)

section \<open>Editing one field of the current slide\<close>

lemma array_set_in_range:
  "0 \<le> i \<Longrightarrow> i < int (length xs) \<Longrightarrow> array_set xs i v = xs[nat i := v]"
  by (simp add: array_set_def)

lemma array_get_in_range:
  "0 \<le> i \<Longrightarrow> i < int (length xs) \<Longrightarrow> array_get xs i = xs ! nat i"
  by (simp add: array_get_def)

lemma updateSlideContent_slides_in_range:
  assumes "in_bounds s"
  shows "slides (processedPresentation (updateSlideContent field v s))
    = (slides (processedPresentation s))
        [nat (currentSlideIndex s) :=
           Some (AList.update field (JString v)
                  (spread (slides (processedPresentation s) ! nat (currentSlideIndex s))))]"
proof -
  from assms have lo: "0 \<le> currentSlideIndex s"
    and hi: "currentSlideIndex s < int (length (slides (processedPresentation s)))"
    by (simp_all add: in_bounds_def)
  show ?thesis
    by (simp add: updateSlideContent_def Let_def array_set_in_range [OF lo hi]
        array_get_in_range [OF lo hi])
qed

lemma spread_Some: "spread (Some obj) = obj"
  by (simp add: spread_def)

lemma keys_update_present:
  "k \<in> fst ` set al \<Longrightarrow> map fst (AList.update k v al) = map fst al"
  by (simp add: update_keys)

text \<open>
  C5. With the index in range, \<open>updateSlideContent field v\<close> puts \<open>v\<close> under \<open>field\<close> in
  the slide at \<open>currentSlideIndex\<close>: that slide's other keys keep their values (and, where
  the slide already had the key, as \<open>title\<close> and \<open>content\<close> of a derived slide, the keys
  keep their order), every other slide is the same element as before, the deck has as many
  slides as before, and id, creation time, title, index and edit flag are untouched. The edit
  flag is not consulted: the call does the same in viewing and in editing mode. This holds
  for every key, \<open>title\<close> and \<open>content\<close> among them.
\<close>

theorem updateSlideContent_frame:
  assumes "in_bounds s"
  shows "length (slides (processedPresentation (updateSlideContent field v s)))
           = length (slides (processedPresentation s))
       \<and> field_of field (slides (processedPresentation (updateSlideContent field v s))
                           ! nat (currentSlideIndex s)) = Some (JString v)
       \<and> (\<forall>k. k \<noteq> field \<longrightarrow>
             field_of k (slides (processedPresentation (updateSlideContent field v s))
                           ! nat (currentSlideIndex s))
             = field_of k (slides (processedPresentation s) ! nat (currentSlideIndex s)))
       \<and> (field \<in> fst ` set (spread (slides (processedPresentation s) ! nat (currentSlideIndex s)))
            \<longrightarrow> map fst (spread (slides (processedPresentation (updateSlideContent field v s))
                           ! nat (currentSlideIndex s)))
                = map fst (spread (slides (processedPresentation s) ! nat (currentSlideIndex s))))
       \<and> (\<forall>j. j \<noteq> nat (currentSlideIndex s) \<longrightarrow>
             slides (processedPresentation (updateSlideContent field v s)) ! j
             = slides (processedPresentation s) ! j)
       \<and> id' (processedPresentation (updateSlideContent field v s))
           = id' (processedPresentation s)
       \<and> createdAt (processedPresentation (updateSlideContent field v s))
           = createdAt (processedPresentation s)
       \<and> title (processedPresentation (updateSlideContent field v s))
           = title (processedPresentation s)
       \<and> currentSlideIndex (updateSlideContent field v s) = currentSlideIndex s
       \<and> isEditing (updateSlideContent field v s) = isEditing s
       \<and> updateSlideContent field v (s\<lparr>isEditing := b\<rparr>)
           = (updateSlideContent field v s)\<lparr>isEditing := b\<rparr>"
proof -
  let ?old = "slides (processedPresentation s)"
  let ?i = "nat (currentSlideIndex s)"
  let ?new = "slides (processedPresentation (updateSlideContent field v s))"
  have new: "?new = ?old[?i := Some (AList.update field (JString v) (spread (?old ! ?i)))]"
    by (rule updateSlideContent_slides_in_range [OF assms])
  from assms have i: "?i < length ?old"
    by (auto simp: in_bounds_def)
  have at_i: "?new ! ?i = Some (AList.update field (JString v) (spread (?old ! ?i)))"
    using i by (simp add: new)
  have len: "length ?new = length ?old"
    by (simp add: new)
  have set_field: "field_of field (?new ! ?i) = Some (JString v)"
    by (simp add: field_of_def at_i spread_Some update_conv')
  have others: "\<forall>k. k \<noteq> field \<longrightarrow> field_of k (?new ! ?i) = field_of k (?old ! ?i)"
    by (simp add: field_of_def at_i spread_Some update_conv')
  have keys: "field \<in> fst ` set (spread (?old ! ?i))
      \<longrightarrow> map fst (spread (?new ! ?i)) = map fst (spread (?old ! ?i))"
    by (simp add: at_i spread_Some keys_update_present)
  have siblings: "\<forall>j. j \<noteq> ?i \<longrightarrow> ?new ! j = ?old ! j"
    by (simp add: new)
  have meta: "id' (processedPresentation (updateSlideContent field v s))
        = id' (processedPresentation s)"
    "createdAt (processedPresentation (updateSlideContent field v s))
        = createdAt (processedPresentation s)"
    "title (processedPresentation (updateSlideContent field v s))
        = title (processedPresentation s)"
    "currentSlideIndex (updateSlideContent field v s) = currentSlideIndex s"
    "isEditing (updateSlideContent field v s) = isEditing s"
    by (simp_all add: updateSlideContent_def Let_def)
  have ungated: "updateSlideContent field v (s\<lparr>isEditing := b\<rparr>)
      = (updateSlideContent field v s)\<lparr>isEditing := b\<rparr>"
    by (simp add: updateSlideContent_def Let_def)
  from len set_field others keys siblings meta ungated show ?thesis
    by (intro conjI)
qed

theorem updateSlideContent_frame_witness:
  "in_bounds (setCurrentSlideIndex 1 demo_state)
   \<and> slides (processedPresentation
        (updateSlideContent ''content'' ''Edited'' (setCurrentSlideIndex 1 demo_state)))
     = [Some [(''title'', JString ''Slide 1''), (''content'', JString ''Intro text''),
              (''imageUrl'', JString []), (''style'', JObject [])],
        Some [(''title'', JString ''Slide 2''), (''content'', JString ''Edited''),
              (''imageUrl'', JString []), (''style'', JObject [])],
        Some [(''title'', JString ''Slide 3''), (''content'', JString ''\<newline>Third point''),
              (''imageUrl'', JString []), (''style'', JObject [])]]
   \<and> field_of ''content'' (slides (processedPresentation
        (updateSlideContent ''content'' ''Edited'' (setCurrentSlideIndex 1 demo_state))) ! 1)
     = Some (JString ''Edited'')"
proof -
  have ib: "in_bounds (setCurrentSlideIndex 1 demo_state)"
    by (simp add: in_bounds_def setCurrentSlideIndex_def demo_slides)
  have val: "slides (processedPresentation
        (updateSlideContent ''content'' ''Edited'' (setCurrentSlideIndex 1 demo_state)))
     = [Some [(''title'', JString ''Slide 1''), (''content'', JString ''Intro text''),
              (''imageUrl'', JString []), (''style'', JObject [])],
        Some [(''title'', JString ''Slide 2''), (''content'', JString ''Edited''),
              (''imageUrl'', JString []), (''style'', JObject [])],
        Some [(''title'', JString ''Slide 3''), (''content'', JString ''\<newline>Third point''),
              (''imageUrl'', JString []), (''style'', JObject [])]]"
    by (simp add: updateSlideContent_def Let_def setCurrentSlideIndex_def demo_slides
        array_set_def array_get_def spread_def)
  from updateSlideContent_frame [OF ib, of "''content''" "''Edited''"] ib val
  show ?thesis
    by (simp add: setCurrentSlideIndex_def)
qed

section \<open>Splitting the text\<close>

lemma split_scan_nonempty: "split_scan sep acc s \<noteq> []"
  by (induction sep acc s rule: split_scan.induct) auto

lemma join_Cons: "ys \<noteq> [] \<Longrightarrow> join sep (x # ys) = x @ sep @ join sep ys"
  by (cases ys) auto

text \<open>Gluing the blocks together with the separator gives the text back.\<close>

lemma join_split_scan: "sep \<noteq> [] \<Longrightarrow> join sep (split_scan sep acc s) = acc @ s"
proof (induction sep acc s rule: split_scan.induct)
  case (1 sep acc)
  then show ?case by simp
next
  case (2 sep acc c cs)
  show ?case
  proof (cases "take (length sep) (c # cs) = sep")
    case True
    have "join sep (split_scan sep acc (c # cs))
        = acc @ sep @ join sep (split_scan sep [] (drop (length sep) (c # cs)))"
      using True "2.prems" by (simp add: join_Cons split_scan_nonempty)
    also have "\<dots> = acc @ sep @ drop (length sep) (c # cs)"
      using "2.IH"(1) True "2.prems" by simp
    also have "\<dots> = acc @ take (length sep) (c # cs) @ drop (length sep) (c # cs)"
      using True by simp
    finally show ?thesis by (simp only: append_take_drop_id)
  next
    case False
    then show ?thesis using "2.IH"(2) "2.prems" by simp
  qed
qed

lemma join_js_split: "sep \<noteq> [] \<Longrightarrow> join sep (js_split sep s) = s"
  by (simp add: js_split_def join_split_scan)

lemma occurs_iff: "occurs sep t = (\<exists>i. take (length sep) (drop i t) = sep)"
proof (induction t)
  case Nil
  then show ?case by auto
next
  case (Cons c cs)
  show ?case
  proof
    assume "occurs sep (c # cs)"
    then consider "take (length sep) (c # cs) = sep" | "occurs sep cs" by auto
    then show "\<exists>i. take (length sep) (drop i (c # cs)) = sep"
    proof cases
      case 1
      then have "take (length sep) (drop 0 (c # cs)) = sep" by simp
      then show ?thesis by blast
    next
      case 2
      with Cons obtain i where "take (length sep) (drop i cs) = sep" by auto
      then have "take (length sep) (drop (Suc i) (c # cs)) = sep" by simp
      then show ?thesis by blast
    qed
  next
    assume "\<exists>i. take (length sep) (drop i (c # cs)) = sep"
    then obtain i where i: "take (length sep) (drop i (c # cs)) = sep" by blast
    show "occurs sep (c # cs)"
    proof (cases i)
      case 0
      with i show ?thesis by simp
    next
      case (Suc j)
      with i have "take (length sep) (drop j cs) = sep" by simp
      with Cons show ?thesis by auto
    qed
  qed
qed

lemma take_drop_fits:
  assumes "take n (drop i xs) = ys" and "length ys = n" and "0 < n"
  shows "i + n \<le> length xs"
proof -
  have "length (take n (drop i xs)) = n"
    using assms(1,2) by simp
  then have "min n (length xs - i) = n"
    by simp
  then show ?thesis using assms(3) by arith
qed

lemma take_drop_append_left:
  "i + n \<le> length xs \<Longrightarrow> take n (drop i (xs @ ys)) = take n (drop i xs)"
  by simp

text \<open>
  The scan cuts at the leftmost separator each time: as long as no separator starts inside
  the block collected so far, no block but the last has one even when the separator's first
  characters are put behind it, and the last block has none.
\<close>

lemma split_scan_blocks:
  "sep \<noteq> [] \<Longrightarrow> \<forall>i < length acc. take (length sep) (drop i (acc @ s)) \<noteq> sep \<Longrightarrow>
   (\<forall>b \<in> set (butlast (split_scan sep acc s)). \<not> occurs sep (b @ butlast sep))
   \<and> \<not> occurs sep (last (split_scan sep acc s))"
proof (induction sep acc s rule: split_scan.induct)
  case (1 sep acc)
  have "\<not> occurs sep acc"
  proof
    assume "occurs sep acc"
    then obtain i where i: "take (length sep) (drop i acc) = sep" by (auto simp: occurs_iff)
    show False
    proof (cases "i < length acc")
      case True
      with "1.prems"(2) i show False by simp
    next
      case False
      with i "1.prems"(1) show False by simp
    qed
  qed
  then show ?case by simp
next
  case (2 sep acc c cs)
  show ?case
  proof (cases "take (length sep) (c # cs) = sep")
    case True
    let ?rest = "split_scan sep [] (drop (length sep) (c # cs))"
    have res: "split_scan sep acc (c # cs) = acc # ?rest"
      using True "2.prems"(1) by simp
    have ih: "(\<forall>b \<in> set (butlast ?rest). \<not> occurs sep (b @ butlast sep))
        \<and> \<not> occurs sep (last ?rest)"
      using "2.IH"(1) True "2.prems"(1) by simp
    have first: "\<not> occurs sep (acc @ butlast sep)"
    proof
      assume "occurs sep (acc @ butlast sep)"
      then obtain i where i: "take (length sep) (drop i (acc @ butlast sep)) = sep"
        by (auto simp: occurs_iff)
      have fit: "i + length sep \<le> length (acc @ butlast sep)"
        using i "2.prems"(1) by (intro take_drop_fits [of _ _ _ sep]) auto
      moreover have "length (acc @ butlast sep) = length acc + (length sep - 1)"
        by simp
      moreover have "0 < length sep"
        using "2.prems"(1) by simp
      ultimately have ilt: "i < length acc"
        by arith
      obtain r where r: "c # cs = sep @ r"
        using True by (metis append_take_drop_id)
      have "sep = butlast sep @ [last sep]" using "2.prems"(1) by simp
      then have pre: "acc @ c # cs = (acc @ butlast sep) @ (last sep # r)"
        using r by (metis append.assoc append_Cons append_Nil)
      have "take (length sep) (drop i (acc @ c # cs))
          = take (length sep) (drop i (acc @ butlast sep))"
        unfolding pre by (rule take_drop_append_left [OF fit])
      with i have "take (length sep) (drop i (acc @ c # cs)) = sep" by simp
      with "2.prems"(2) ilt show False by simp
    qed
    show ?thesis
      using res ih first by (simp add: split_scan_nonempty)
  next
    case False
    have sf: "\<forall>i < length (acc @ [c]). take (length sep) (drop i ((acc @ [c]) @ cs)) \<noteq> sep"
    proof (intro allI impI)
      fix i assume "i < length (acc @ [c])"
      then consider "i < length acc" | "i = length acc" by fastforce
      then show "take (length sep) (drop i ((acc @ [c]) @ cs)) \<noteq> sep"
      proof cases
        case 1
        with "2.prems"(2) show ?thesis by simp
      next
        case 2
        with False show ?thesis by simp
      qed
    qed
    from False have res: "split_scan sep acc (c # cs) = split_scan sep (acc @ [c]) cs"
      by simp
    show ?thesis
      unfolding res using "2.IH"(2) False "2.prems"(1) sf by simp
  qed
qed

lemma js_split_blocks:
  "sep \<noteq> [] \<Longrightarrow>
   (\<forall>b \<in> set (butlast (js_split sep s)). \<not> occurs sep (b @ butlast sep))
   \<and> \<not> occurs sep (last (js_split sep s))"
  using split_scan_blocks [of sep "[]" s] by (simp add: js_split_def)

text \<open>A text without the separator is one block.\<close>

lemma split_scan_no_separator:
  "sep \<noteq> [] \<Longrightarrow> \<not> occurs sep s \<Longrightarrow> split_scan sep acc s = [acc @ s]"
  by (induction sep acc s rule: split_scan.induct) auto

section \<open>The derived slides\<close>

lemma derive_slides_titles:
  "map (field_of ''title'') (derive_slides text) =
     map (\<lambda>n. Some (JString (''Slide '' @ decimal n)))
       [1..<Suc (length (filter (\<lambda>b. b \<noteq> []) (js_split ''\<newline>\<newline>'' text)))]"
proof -
  let ?bs = "filter (\<lambda>b. b \<noteq> []) (js_split ''\<newline>\<newline>'' text)"
  have "map (field_of ''title'') (derive_slides text)
      = map ((\<lambda>i. Some (JString (''Slide '' @ decimal (Suc i)))) \<circ> fst) (enumerate 0 ?bs)"
    by (simp add: derive_slides_def field_of_def spread_Some split_def)
  also have "\<dots> = map (\<lambda>i. Some (JString (''Slide '' @ decimal (Suc i)))) [0..<length ?bs]"
    by (simp only: map_map [symmetric] map_fst_enumerate) simp
  also have "\<dots> = map (\<lambda>n. Some (JString (''Slide '' @ decimal n))) (map Suc [0..<length ?bs])"
    by (simp add: comp_def)
  also have "map Suc [0..<length ?bs] = [1..<Suc (length ?bs)]"
    by (simp only: map_Suc_upt One_nat_def)
  finally show ?thesis .
qed

lemma derive_slides_contents:
  "map (field_of ''content'') (derive_slides text) =
     map (\<lambda>b. Some (JString b)) (filter (\<lambda>b. b \<noteq> []) (js_split ''\<newline>\<newline>'' text))"
proof -
  let ?bs = "filter (\<lambda>b. b \<noteq> []) (js_split ''\<newline>\<newline>'' text)"
  have "map (field_of ''content'') (derive_slides text)
      = map ((\<lambda>b. Some (JString b)) \<circ> snd) (enumerate 0 ?bs)"
    by (simp add: derive_slides_def field_of_def spread_Some split_def)
  also have "\<dots> = map (\<lambda>b. Some (JString b)) ?bs"
    by (simp only: map_map [symmetric] map_snd_enumerate)
  finally show ?thesis .
qed

lemma length_derive_slides:
  "length (derive_slides text)
     = length (filter (\<lambda>b. b \<noteq> []) (js_split ''\<newline>\<newline>'' text))"
  by (simp add: derive_slides_def)

lemma effect_slides:
  "slides (processedPresentation (slide_derivation_effect p uuid now s))
     = derive_slides (result p)"
  by (simp add: slide_derivation_effect_def)

lemma digit_char_value: "n < 10 \<Longrightarrow> (of_char (''0123456789'' ! n) :: nat) = 48 + n"
proof -
  assume "n < 10"
  then have "n \<in> {0, 1, 2, 3, 4, 5, 6, 7, 8, 9}" by auto
  then show ?thesis by auto
qed

lemma digits_value_snoc: "digits_value (ds @ [c]) = 10 * digits_value ds + (of_char c - 48)"
  by (simp add: digits_value_def)

lemma decimal_value: "digits_value (decimal n) = n"
proof (induction n rule: decimal.induct)
  case (1 n)
  show ?case
  proof (cases "n < 10")
    case True
    then have "decimal n = [''0123456789'' ! n]" by (simp add: decimal.simps)
    then show ?thesis using digit_char_value [OF True] by (simp add: digits_value_def)
  next
    case False
    then have d: "decimal n = decimal (n div 10) @ [''0123456789'' ! (n mod 10)]"
      by (subst decimal.simps) simp
    have "n mod 10 < 10" by simp
    from digit_char_value [OF this] "1.IH" False show ?thesis
      by (simp add: d digits_value_snoc)
  qed
qed

text \<open>
  C8. The titles of the derived slides are \<open>Slide 1\<close>, \<open>Slide 2\<close>, \<dots>, one for each of the
  blocks that survive the filter, numbered by position among the survivors (the number is
  written in decimal). A dropped block leaves no gap: the text \<open>a\<close>, four newlines, \<open>b\<close>
  splits into three blocks, the middle one empty, and \<open>b\<close> becomes \<open>Slide 2\<close>.
\<close>

theorem slide_titles_numbered:
  "slides (processedPresentation (slide_derivation_effect p uuid now s))
     = derive_slides (result p)
   \<and> map (field_of ''title'') (derive_slides (result p))
     = map (\<lambda>n. Some (JString (''Slide '' @ decimal n)))
         [1..<Suc (length (derive_slides (result p)))]
   \<and> length (derive_slides (result p))
     = length (filter (\<lambda>b. b \<noteq> []) (js_split ''\<newline>\<newline>'' (result p)))
   \<and> digits_value (decimal n) = n
   \<and> js_split ''\<newline>\<newline>'' ''a\<newline>\<newline>\<newline>\<newline>b'' = [''a'', [], ''b'']
   \<and> map (field_of ''title'') (derive_slides ''a\<newline>\<newline>\<newline>\<newline>b'')
     = [Some (JString ''Slide 1''), Some (JString ''Slide 2'')]"
proof -
  have gap: "js_split ''\<newline>\<newline>'' ''a\<newline>\<newline>\<newline>\<newline>b'' = [''a'', [], ''b'']"
    by (simp add: js_split_def)
  have gap_titles: "map (field_of ''title'') (derive_slides ''a\<newline>\<newline>\<newline>\<newline>b'')
     = [Some (JString ''Slide 1''), Some (JString ''Slide 2'')]"
    by (simp add: derive_slides_def gap enumerate_eq_zip decimal.simps field_of_def spread_Some)
  have titles: "map (field_of ''title'') (derive_slides (result p))
     = map (\<lambda>n. Some (JString (''Slide '' @ decimal n)))
         [1..<Suc (length (derive_slides (result p)))]"
    by (simp only: derive_slides_titles length_derive_slides)
  from effect_slides titles length_derive_slides decimal_value gap gap_titles
  show ?thesis by (intro conjI)
qed

section \<open>Blocks and slide contents\<close>

text \<open>
  C1, as stated, fails on its own example: the text is split at each pair of newlines, so
  of three newlines in a row the third stays at the head of the next block, and the third
  slide's content is a newline followed by \<open>Third point\<close>. Nothing is trimmed either: a
  text that is one space gives one slide.
\<close>

theorem blank_line_split_counterexample:
  "map (field_of ''content'') (slides (processedPresentation demo_state))
     = [Some (JString ''Intro text''), Some (JString ''Second point''),
        Some (JString ''\<newline>Third point'')]
   \<and> map (field_of ''content'') (slides (processedPresentation demo_state))
     \<noteq> [Some (JString ''Intro text''), Some (JString ''Second point''),
        Some (JString ''Third point'')]
   \<and> map (field_of ''content'') (derive_slides '' '') = [Some (JString '' '')]"
  by (simp add: demo_slides field_of_def spread_Some derive_slides_def js_split_def
      enumerate_eq_zip)

text \<open>
  C1, amended. The slides are derived from the blocks that \<^verbatim>\<open>split\<close> yields for the
  separator of exactly two newlines: glued together with that separator the blocks give the
  text back, every block but the last is free of the separator even with one newline put
  behind it (each cut is at the leftmost pair of newlines), and the last block is free of
  it. Exactly the blocks that are the empty string are dropped, nothing is trimmed, and each
  remaining block is the content of its slide, unchanged and in order. A text without two
  newlines in a row gives one slide holding the whole text, or no slide when it is empty.
  The sample text gives three slides, with contents \<open>Intro text\<close>, \<open>Second point\<close> and a
  newline followed by \<open>Third point\<close>.
\<close>

theorem slide_contents_are_blocks:
  "slides (processedPresentation (slide_derivation_effect p uuid now s))
     = derive_slides (result p)
   \<and> map (field_of ''content'') (derive_slides (result p))
     = map (\<lambda>b. Some (JString b))
         (filter (\<lambda>b. b \<noteq> []) (js_split ''\<newline>\<newline>'' (result p)))
   \<and> join ''\<newline>\<newline>'' (js_split ''\<newline>\<newline>'' (result p)) = result p
   \<and> (\<forall>b \<in> set (butlast (js_split ''\<newline>\<newline>'' (result p))).
         \<not> occurs ''\<newline>\<newline>'' (b @ ''\<newline>''))
   \<and> \<not> occurs ''\<newline>\<newline>'' (last (js_split ''\<newline>\<newline>'' (result p)))
   \<and> (\<not> occurs ''\<newline>\<newline>'' (result p) \<longrightarrow>
         map (field_of ''content'') (derive_slides (result p))
         = (if result p = [] then [] else [Some (JString (result p))]))
   \<and> map (field_of ''content'') (slides (processedPresentation demo_state))
     = [Some (JString ''Intro text''), Some (JString ''Second point''),
        Some (JString ''\<newline>Third point'')]"
proof -
  have glue: "join ''\<newline>\<newline>'' (js_split ''\<newline>\<newline>'' (result p)) = result p"
    by (rule join_js_split) simp
  have blocks: "(\<forall>b \<in> set (butlast (js_split ''\<newline>\<newline>'' (result p))).
         \<not> occurs ''\<newline>\<newline>'' (b @ ''\<newline>''))
      \<and> \<not> occurs ''\<newline>\<newline>'' (last (js_split ''\<newline>\<newline>'' (result p)))"
    using js_split_blocks [of "''\<newline>\<newline>''" "result p"] by simp
  have single: "\<not> occurs ''\<newline>\<newline>'' (result p) \<longrightarrow>
         map (field_of ''content'') (derive_slides (result p))
         = (if result p = [] then [] else [Some (JString (result p))])"
  proof
    assume "\<not> occurs ''\<newline>\<newline>'' (result p)"
    then have "js_split ''\<newline>\<newline>'' (result p) = [result p]"
      by (simp add: js_split_def split_scan_no_separator)
    then show "map (field_of ''content'') (derive_slides (result p))
         = (if result p = [] then [] else [Some (JString (result p))])"
      by (simp add: derive_slides_contents)
  qed
  have sample: "map (field_of ''content'') (slides (processedPresentation demo_state))
     = [Some (JString ''Intro text''), Some (JString ''Second point''),
        Some (JString ''\<newline>Third point'')]"
    by (simp add: demo_slides field_of_def spread_Some)
  from effect_slides derive_slides_contents glue blocks single sample
  show ?thesis by (intro conjI) simp_all
qed

theorem slide_contents_are_blocks_witness:
  "js_split ''\<newline>\<newline>'' (result demo_props) = [''Intro text'', ''Second point'', ''\<newline>Third point'']
   \<and> ''Second point'' \<in> set (butlast (js_split ''\<newline>\<newline>'' (result demo_props)))
   \<and> \<not> occurs ''\<newline>\<newline>'' (''Second point'' @ ''\<newline>'')
   \<and> \<not> occurs ''\<newline>\<newline>'' (result (demo_props\<lparr>result := ''One block''\<rparr>))
   \<and> map (field_of ''content'') (derive_slides (result (demo_props\<lparr>result := ''One block''\<rparr>)))
     = [Some (JString ''One block'')]"
proof -
  have sp: "js_split ''\<newline>\<newline>'' (result demo_props)
      = [''Intro text'', ''Second point'', ''\<newline>Third point'']"
    by (simp add: demo_props_def js_split_def)
  have mem: "''Second point'' \<in> set (butlast (js_split ''\<newline>\<newline>'' (result demo_props)))"
    by (simp add: sp)
  have free: "\<not> occurs ''\<newline>\<newline>'' (result (demo_props\<lparr>result := ''One block''\<rparr>))"
    by simp
  from slide_contents_are_blocks [of demo_props "''id-2''" "''t2''" demo_state]
  have "\<not> occurs ''\<newline>\<newline>'' (''Second point'' @ ''\<newline>'')"
    using mem by blast
  moreover
  from slide_contents_are_blocks
    [of "demo_props\<lparr>result := ''One block''\<rparr>" "''id-3''" "''t3''" demo_state]
  have "\<not> occurs ''\<newline>\<newline>'' (result (demo_props\<lparr>result := ''One block''\<rparr>)) \<longrightarrow>
      map (field_of ''content'') (derive_slides (result (demo_props\<lparr>result := ''One block''\<rparr>)))
      = (if result (demo_props\<lparr>result := ''One block''\<rparr>) = [] then []
         else [Some (JString (result (demo_props\<lparr>result := ''One block''\<rparr>)))])"
    by blast
  with free
  have "map (field_of ''content'') (derive_slides (result (demo_props\<lparr>result := ''One block''\<rparr>)))
     = [Some (JString ''One block'')]"
    by simp
  ultimately show ?thesis
    using sp mem free by simp
qed

section \<open>The export\<close>

text \<open>The replacement the code makes is the one the specification words.\<close>

lemma replace_nonspace_prefix:
  "\<forall>x \<in> set xs. \<not> is_space x \<Longrightarrow> replace_space_runs r (xs @ ys) = xs @ replace_space_runs r ys"
  by (induction xs) auto

lemma replace_skips_spaces:
  "is_space c \<Longrightarrow> replace_space_runs r (c # cs) = r @ replace_space_runs r (dropWhile is_space cs)"
  by simp

lemma replace_is_spec_runs:
  "replace_space_runs ''_'' t =
     concat (map (\<lambda>r. case r of [] \<Rightarrow> [] | c # cs \<Rightarrow> if is_space c then ''_'' else r)
               (space_runs t))"
proof (induction t rule: space_runs.induct)
  case 1
  then show ?case by simp
next
  case (2 c cs)
  show ?case
  proof (cases "is_space c")
    case True
    with "2.IH"(1) show ?thesis by simp
  next
    case False
    let ?pre = "takeWhile (\<lambda>d. \<not> is_space d) cs"
    let ?post = "dropWhile (\<lambda>d. \<not> is_space d) cs"
    have "replace_space_runs ''_'' (c # cs) = c # replace_space_runs ''_'' (?pre @ ?post)"
      using False by simp
    also have "\<dots> = c # ?pre @ replace_space_runs ''_'' ?post"
      by (subst replace_nonspace_prefix) (auto dest: set_takeWhileD)
    finally show ?thesis
      using False "2.IH"(2) by simp
  qed
qed

lemma concat_space_runs: "concat (space_runs t) = t"
  by (induction t rule: space_runs.induct) auto

lemma no_space_left:
  "\<forall>x \<in> set r. \<not> is_space x \<Longrightarrow> \<forall>x \<in> set (replace_space_runs r t). \<not> is_space x"
proof (induction r t rule: replace_space_runs.induct)
  case (1 r)
  show ?case by simp
next
  case (2 r c cs)
  show ?case
  proof (cases "is_space c")
    case True
    from "2.IH"(1) [OF True "2.prems"]
    have "\<forall>x \<in> set (replace_space_runs r (dropWhile is_space cs)). \<not> is_space x" .
    with "2.prems" True show ?thesis
      by (simp add: ball_Un)
  next
    case False
    from "2.IH"(2) [OF False "2.prems"]
    have "\<forall>x \<in> set (replace_space_runs r cs). \<not> is_space x" .
    with False show ?thesis
      by simp
  qed
qed

text \<open>Every slide of a reachable state has the four keys of a derived slide, in order.\<close>

lemma full_slide_update:
  "full_slide (Some obj) \<Longrightarrow> field = ''title'' \<or> field = ''content'' \<Longrightarrow>
   full_slide (Some (AList.update field v obj))"
  by (auto simp: full_slide_def slide_keys_def update_keys)

lemma derive_slides_full: "list_all full_slide (derive_slides text)"
  by (simp add: derive_slides_def list_all_iff full_slide_def slide_keys_def split_def)

lemma rendered_current:
  "rendered s \<Longrightarrow> 0 \<le> currentSlideIndex s
     \<and> currentSlideIndex s < int (length (slides (processedPresentation s)))"
  by (auto simp: rendered_def currentSlide_def array_get_def split: if_splits option.splits)

lemma reachable_full_slides:
  "reachable s \<Longrightarrow> list_all full_slide (slides (processedPresentation s))"
proof (induction rule: reachable.induct)
  case (first_render p uuid now)
  then show ?case by (simp add: initial_state_def)
next
  case (rebuilt s p uuid now)
  then show ?case by (simp add: slide_derivation_effect_def derive_slides_full)
next
  case (go_previous s)
  then show ?case by (simp add: goToPreviousSlide_def)
next
  case (go_next s)
  then show ?case by (simp add: goToNextSlide_def)
next
  case (dot_clicked s j)
  then show ?case by (simp add: setCurrentSlideIndex_def)
next
  case (toggled s p)
  then show ?case by (simp add: handleEditToggle_def)
next
  case (title_edited s v)
  then show ?case by (simp add: title_onChange_def)
next
  case (slide_edited s field v)
  let ?old = "slides (processedPresentation s)"
  let ?i = "nat (currentSlideIndex s)"
  from rendered_current [OF slide_edited.hyps(2)] have ib: "in_bounds s"
    by (simp add: in_bounds_def)
  then have i: "?i < length ?old" by (auto simp: in_bounds_def)
  from slide_edited.IH i have "full_slide (?old ! ?i)"
    by (simp add: list_all_length)
  then obtain obj where obj: "?old ! ?i = Some obj" and full: "full_slide (Some obj)"
    by (cases "?old ! ?i") (auto simp: full_slide_def)
  have new: "slides (processedPresentation (updateSlideContent field v s))
      = ?old[?i := Some (AList.update field (JString v) obj)]"
    by (simp add: updateSlideContent_slides_in_range [OF ib] obj spread_Some)
  have "full_slide (Some (AList.update field (JString v) obj))"
    by (rule full_slide_update [OF full slide_edited.hyps(4)])
  with slide_edited.IH i show ?case
    unfolding new by (auto simp: list_all_length nth_list_update)
qed

lemma reachable_index_nonneg: "reachable s \<Longrightarrow> 0 \<le> currentSlideIndex s"
  by (induction rule: reachable.induct)
    (auto simp: slide_derivation_effect_def initial_state_def goToPreviousSlide_def
      goToNextSlide_def setCurrentSlideIndex_def handleEditToggle_def title_onChange_def
      updateSlideContent_def Let_def)

lemma full_slide_json:
  "full_slide e \<Longrightarrow> is_object_with_keys slide_keys (json_of_element e)"
  by (cases e) (auto simp: full_slide_def json_of_element_def is_object_with_keys_def comp_def)

text \<open>
  What \<open>render\<close> writes reads back as the document it was written from: strings first,
  then the elements of an array and the members of an object, then any document.
\<close>

lemma hex_value_digit:
  "d < 16 \<Longrightarrow> hex_value (''0123456789abcdef'' ! d) = Some d"
proof -
  assume "d < 16"
  then have "d = 0 \<or> d = 1 \<or> d = 2 \<or> d = 3 \<or> d = 4 \<or> d = 5 \<or> d = 6 \<or> d = 7
      \<or> d = 8 \<or> d = 9 \<or> d = 10 \<or> d = 11 \<or> d = 12 \<or> d = 13 \<or> d = 14 \<or> d = 15"
    by arith
  then show ?thesis by (auto simp: hex_value_def)
qed

lemma char_by_code: "(of_char c :: nat) = of_char d \<Longrightarrow> c = d"
  by simp

lemma parse_chars_quote_char:
  assumes "parse_chars X = Some (s, r)"
  shows "parse_chars (quote_char c @ X) = Some (c # s, r)"
proof -
  let ?n = "of_char c :: nat"
  consider "?n = 8" | "?n = 9" | "?n = 10" | "?n = 12" | "?n = 13" | "?n = 34" | "?n = 92"
    | "?n < 32" "?n \<notin> {8, 9, 10, 12, 13}"
    | "32 \<le> ?n" "?n \<noteq> 34" "?n \<noteq> 92"
    by fastforce
  then show ?thesis
  proof cases
    case 1
    then have "c = CHR 0x08" by (intro char_by_code) simp
    then show ?thesis using assms by (simp add: quote_char_def unescape_def)
  next
    case 2
    then have "c = CHR 0x09" by (intro char_by_code) simp
    then show ?thesis using assms by (simp add: quote_char_def unescape_def)
  next
    case 3
    then have "c = CHR 0x0A" by (intro char_by_code) simp
    then show ?thesis using assms by (simp add: quote_char_def unescape_def)
  next
    case 4
    then have "c = CHR 0x0C" by (intro char_by_code) simp
    then show ?thesis using assms by (simp add: quote_char_def unescape_def)
  next
    case 5
    then have "c = CHR 0x0D" by (intro char_by_code) simp
    then show ?thesis using assms by (simp add: quote_char_def unescape_def)
  next
    case 6
    then have "c = CHR 0x22" by (intro char_by_code) simp
    then show ?thesis using assms by (simp add: quote_char_def unescape_def)
  next
    case 7
    then have "c = CHR 0x5C" by (intro char_by_code) simp
    then show ?thesis using assms by (simp add: quote_char_def unescape_def)
  next
    case 8
    have q: "quote_char c = [CHR 0x5C, CHR ''u'', CHR ''0'', CHR ''0'',
        ''0123456789abcdef'' ! (?n div 16), ''0123456789abcdef'' ! (?n mod 16)]"
      using 8 by (simp add: quote_char_def Let_def)
    have h0: "hex_value (CHR ''0'') = Some 0"
      by (simp add: hex_value_def)
    have h1: "hex_value (''0123456789abcdef'' ! (?n div 16)) = Some (?n div 16)"
      using 8(1) by (intro hex_value_digit) simp
    have h2: "hex_value (''0123456789abcdef'' ! (?n mod 16)) = Some (?n mod 16)"
      by (intro hex_value_digit) simp
    have code: "char_of (16 * (?n div 16) + ?n mod 16) = c"
      by simp
    show ?thesis
      unfolding q using assms h0 h1 h2 code by simp
  next
    case 9
    have q: "quote_char c = [c]"
      using 9 by (simp add: quote_char_def Let_def)
    have "c \<noteq> CHR 0x22" "c \<noteq> CHR 0x5C"
      using 9 by auto
    then show ?thesis
      unfolding q using assms 9(1) by simp
  qed
qed

lemma parse_chars_quoted:
  "parse_chars (concat (map quote_char s) @ CHR 0x22 # rest) = Some (s, rest)"
proof (induction s)
  case Nil
  show ?case by simp
next
  case (Cons c s)
  from parse_chars_quote_char [OF Cons.IH, of c] show ?case by simp
qed

lemma parse_chars_quote_json:
  "\<exists>cs. quote_json s @ rest = CHR 0x22 # cs \<and> parse_chars cs = Some (s, rest)"
  using parse_chars_quoted [of s rest] by (simp add: quote_json_def)

lemma render_head:
  "\<exists>c cs. render j = c # cs \<and> c \<noteq> CHR '']'' \<and> c \<noteq> CHR ''}''"
  by (cases j) (auto simp: quote_json_def)


lemma parse_elements_render:
  assumes "\<And>x f rest. x \<in> set xs \<Longrightarrow> length (render x) \<le> f
             \<Longrightarrow> parse_value f (render x @ rest) = Some (x, rest)"
    and "xs \<noteq> []"
    and "length (join '','' (map render xs)) < f"
  shows "parse_elements f (join '','' (map render xs) @ CHR '']'' # rest) = Some (xs, rest)"
  using assms
proof (induction xs arbitrary: f)
  case Nil
  then show ?case by simp
next
  case (Cons x xs)
  from Cons.prems(3) obtain f' where f: "f = Suc f'"
    by (cases f) auto
  have elem: "\<And>tail. length (render x) \<le> f'
      \<Longrightarrow> parse_value f' (render x @ tail) = Some (x, tail)"
    by (rule Cons.prems(1)) simp_all
  show ?case
  proof (cases "xs = []")
    case True
    have "length (render x) \<le> f'"
      using Cons.prems(3) True f by simp
    from elem [OF this] show ?thesis
      unfolding f using True by simp
  next
    case False
    then have joined: "join '','' (map render (x # xs))
        = render x @ CHR '','' # join '','' (map render xs)"
      by (cases xs) simp_all
    have len: "length (render x) + 1 + length (join '','' (map render xs)) < Suc f'"
      using Cons.prems(3) unfolding f joined by simp
    then have lx: "length (render x) \<le> f'" and lxs: "length (join '','' (map render xs)) < f'"
      by simp_all
    have rest_elems: "parse_elements f' (join '','' (map render xs) @ CHR '']'' # rest)
        = Some (xs, rest)"
      by (rule Cons.IH [OF _ False lxs]) (rule Cons.prems(1), simp_all)
    show ?thesis
      unfolding f joined using elem [OF lx] rest_elems by simp
  qed
qed

lemma parse_members_render:
  assumes "\<And>k v f rest. (k, v) \<in> set kvs \<Longrightarrow> length (render v) \<le> f
             \<Longrightarrow> parse_value f (render v @ rest) = Some (v, rest)"
    and "kvs \<noteq> []"
    and "length (join '','' (map member_text kvs)) < f"
  shows "parse_members f (join '','' (map member_text kvs) @ CHR ''}'' # rest) = Some (kvs, rest)"
  using assms
proof (induction kvs arbitrary: f)
  case Nil
  then show ?case by simp
next
  case (Cons kv kvs)
  obtain k v where kv: "kv = (k, v)"
    by (cases kv)
  from Cons.prems(3) obtain f' where f: "f = Suc f'"
    by (cases f) auto
  have elem: "\<And>tail. length (render v) \<le> f'
      \<Longrightarrow> parse_value f' (render v @ tail) = Some (v, tail)"
    by (rule Cons.prems(1) [of k v]) (simp_all add: kv)
  have key: "\<And>tail. \<exists>cs. member_text kv @ tail = CHR 0x22 # cs
      \<and> parse_chars cs = Some (k, CHR '':'' # render v @ tail)"
    using parse_chars_quote_json [of k] by (simp add: member_text_def kv)
  show ?case
  proof (cases "kvs = []")
    case True
    have "length (render v) \<le> f'"
      using Cons.prems(3) True f by (simp add: member_text_def kv)
    from elem [OF this, of "CHR ''}'' # rest"]
      key [of "CHR ''}'' # rest"]
    show ?thesis
      unfolding f using True by (auto simp: kv)
  next
    case False
    then have joined: "join '','' (map member_text (kv # kvs))
        = member_text kv @ CHR '','' # join '','' (map member_text kvs)"
      by (cases kvs) simp_all
    have "length (member_text kv) + 1 + length (join '','' (map member_text kvs)) < Suc f'"
      using Cons.prems(3) unfolding f joined by simp
    then have lx: "length (render v) \<le> f'"
      and lxs: "length (join '','' (map member_text kvs)) < f'"
      by (simp_all add: member_text_def kv)
    have rest_members: "parse_members f' (join '','' (map member_text kvs) @ CHR ''}'' # rest)
        = Some (kvs, rest)"
    proof (rule Cons.IH [OF _ False lxs])
      fix k' v' g tail
      assume "(k', v') \<in> set kvs" and "length (render v') \<le> g"
      then show "parse_value g (render v' @ tail) = Some (v', tail)"
        by (intro Cons.prems(1) [of k' v']) simp_all
    qed
    from elem [OF lx, of "CHR '','' # join '','' (map member_text kvs) @ CHR ''}'' # rest"]
      key [of "CHR '','' # join '','' (map member_text kvs) @ CHR ''}'' # rest"]
      rest_members
    show ?thesis
      unfolding f joined by (auto simp: kv)
  qed
qed

lemma render_object_text:
  "render (JObj kvs) = CHR ''{'' # join '','' (map member_text kvs) @ ''}''"
  by (simp add: member_text_def [abs_def] split_def comp_def)

lemma parse_value_render:
  "length (render j) \<le> f \<Longrightarrow> parse_value f (render j @ rest) = Some (j, rest)"
proof (induction j arbitrary: f rest)
  case JNull
  then obtain f' where "f = Suc f'" by (cases f) auto
  then show ?case by simp
next
  case (JStr s)
  then obtain f' where f: "f = Suc f'" by (cases f) (auto simp: quote_json_def)
  from parse_chars_quote_json [of s rest] show ?case
    unfolding f by auto
next
  case (JArr xs)
  from JArr.prems obtain f' where f: "f = Suc f'" by (cases f) auto
  show ?case
  proof (cases "xs = []")
    case True
    then show ?thesis unfolding f by simp
  next
    case False
    then obtain x xs' where xs: "xs = x # xs'" by (cases xs) auto
    from render_head [of x] obtain c cs where head: "render x = c # cs" "c \<noteq> CHR '']''"
      by blast
    have first: "\<exists>d ds. join '','' (map render xs) @ CHR '']'' # rest = d # ds \<and> d \<noteq> CHR '']''"
      unfolding xs using head by (cases xs') simp_all
    have len: "length (join '','' (map render xs)) < f'"
      using JArr.prems unfolding f by simp
    have "parse_elements f' (join '','' (map render xs) @ CHR '']'' # rest) = Some (xs, rest)"
      by (rule parse_elements_render [OF _ False len]) (rule JArr.IH)
    with first show ?thesis
      unfolding f by auto
  qed
next
  case (JObj kvs)
  from JObj.prems obtain f' where f: "f = Suc f'" by (cases f) auto
  show ?case
  proof (cases "kvs = []")
    case True
    then show ?thesis unfolding f by simp
  next
    case False
    then obtain kv kvs' where kvs: "kvs = kv # kvs'" by (cases kvs) auto
    have first: "\<exists>d ds. join '','' (map member_text kvs) @ CHR ''}'' # rest = d # ds
        \<and> d \<noteq> CHR ''}''"
      unfolding kvs by (cases kvs') (simp_all add: member_text_def quote_json_def)
    have len: "length (join '','' (map member_text kvs)) < f'"
      using JObj.prems unfolding f render_object_text by simp
    have "parse_members f' (join '','' (map member_text kvs) @ CHR ''}'' # rest)
        = Some (kvs, rest)"
    proof (rule parse_members_render [OF _ False len])
      fix k v g tail
      assume "(k, v) \<in> set kvs" and "length (render v) \<le> g"
      then show "parse_value g (render v @ tail) = Some (v, tail)"
        by (intro JObj.IH [of "(k, v)" v]) auto
    qed
    with first show ?thesis
      unfolding f render_object_text by auto
  qed
qed

lemma parse_json_render: "parse_json (render j) = Some j"
  using parse_value_render [of j "length (render j)" "[]"] by (simp add: parse_json_def)

text \<open>What \<open>encodeURIComponent\<close> writes decodes to the text it was given.\<close>

lemma hex_value_upper:
  "d < 16 \<Longrightarrow> hex_value (''0123456789ABCDEF'' ! d) = Some d"
proof -
  assume "d < 16"
  then have "d = 0 \<or> d = 1 \<or> d = 2 \<or> d = 3 \<or> d = 4 \<or> d = 5 \<or> d = 6 \<or> d = 7
      \<or> d = 8 \<or> d = 9 \<or> d = 10 \<or> d = 11 \<or> d = 12 \<or> d = 13 \<or> d = 14 \<or> d = 15"
    by arith
  then show ?thesis by (auto simp: hex_value_def)
qed

lemma of_char_less_256: "(of_char c :: nat) < 256"
proof -
  have "(of_char c :: nat) = of_char c mod 256" by simp
  also have "\<dots> < 256" by (rule mod_less_divisor) simp
  finally show ?thesis .
qed

lemma decode_percent:
  assumes "b < 256"
  shows "\<exists>h1 h2. percent b = [CHR ''%'', h1, h2]
           \<and> hex_value h1 = Some (b div 16) \<and> hex_value h2 = Some (b mod 16)"
proof -
  from assms have "b div 16 < 16" by simp
  then show ?thesis
    by (simp add: percent_def hex_value_upper)
qed

lemma decode_encode_char:
  assumes "decodeURIComponent X = Some s"
  shows "decodeURIComponent (encode_char c @ X) = Some (c # s)"
proof -
  let ?n = "of_char c :: nat"
  have n: "?n < 256" by (rule of_char_less_256)
  consider "uri_unreserved c" | "\<not> uri_unreserved c" "?n < 128"
    | "\<not> uri_unreserved c" "128 \<le> ?n"
    by fastforce
  then show ?thesis
  proof cases
    case 1
    then have "c \<noteq> CHR ''%''"
      by (auto simp: uri_unreserved_def)
    with 1 assms show ?thesis
      by (simp add: encode_char_def)
  next
    case 2
    from decode_percent [OF n] obtain h1 h2 where p: "percent ?n = [CHR ''%'', h1, h2]"
      and h: "hex_value h1 = Some (?n div 16)" "hex_value h2 = Some (?n mod 16)"
      by blast
    have e: "encode_char c = [CHR ''%'', h1, h2]"
      using 2 p by (simp add: encode_char_def Let_def)
    show ?thesis
      unfolding e using h assms 2(2) by simp
  next
    case 3
    let ?b1 = "192 + ?n div 64" and ?b2 = "128 + ?n mod 64"
    have b1: "?b1 = 194 \<or> ?b1 = 195"
      using n 3(2) by arith
    then have b1_256: "?b1 < 256" by arith
    have b2_256: "?b2 < 256" by simp
    from decode_percent [OF b1_256] obtain h1 h2 where p1: "percent ?b1 = [CHR ''%'', h1, h2]"
      and h12: "hex_value h1 = Some (?b1 div 16)" "hex_value h2 = Some (?b1 mod 16)"
      by blast
    from decode_percent [OF b2_256] obtain h3 h4 where p2: "percent ?b2 = [CHR ''%'', h3, h4]"
      and h34: "hex_value h3 = Some (?b2 div 16)" "hex_value h4 = Some (?b2 mod 16)"
      by blast
    have e: "encode_char c = [CHR ''%'', h1, h2, CHR ''%'', h3, h4]"
      using 3 p1 p2 by (simp add: encode_char_def Let_def)
    have v1: "16 * (?b1 div 16) + ?b1 mod 16 = ?b1" by simp
    have v2: "16 * (?b2 div 16) + ?b2 mod 16 = ?b2" by simp
    have code: "char_of ((?b1 - 192) * 64 + (?b2 - 128)) = c"
      by simp
    have hi: "\<not> ?b1 < 128" by simp
    have mid: "128 \<le> ?b2" "?b2 < 192" by simp_all
    show ?thesis
      unfolding e using h12 h34 assms b1 hi mid code
      by (simp only: decodeURIComponent.simps append_Cons append_Nil list.case option.case
          prod.case v1 v2 if_True if_False simp_thms char.inject refl)
  qed
qed

lemma decode_encode: "decodeURIComponent (encodeURIComponent s) = Some s"
proof (induction s)
  case Nil
  show ?case by (simp add: encodeURIComponent_def)
next
  case (Cons c s)
  from decode_encode_char [of "encodeURIComponent s" s c] Cons show ?case
    by (simp add: encodeURIComponent_def)
qed

lemma parse_json_refuses:
  "parse_json [] = None"
  "parse_json ''[null,]'' = None"
  "parse_json ''[null]x'' = None"
  "parse_json ''{null}'' = None"
  by (simp_all add: parse_json_def)

lemma spec_filename_sample: "spec_filename ''My  Talk'' = ''My_Talk.json''"
  by (simp add: spec_filename_def is_space_def)

text \<open>
  C7. In every state the component can reach, \<open>handleDownload\<close> offers one download. Its
  file name is the title with every run of white space replaced by one underscore, followed
  by \<^verbatim>\<open>.json\<close> (no white space is left in the part before the suffix; the title \<open>My\<close>, two
  spaces, \<open>Talk\<close> gives \<^verbatim>\<open>My_Talk.json\<close>). Its content is the percent-encoded text that
  \<^verbatim>\<open>JSON.stringify\<close> writes for the presentation (decoding gives that text back), and
  the text reads back, by the JSON grammar, as an object with the keys \<open>id\<close>, \<open>createdAt\<close>,
  \<open>title\<close>, \<open>slides\<close>, in this order, holding the presentation's id, creation time and title
  as strings and, under \<open>slides\<close>, an array with one element per slide, each an object with
  the keys \<open>title\<close>, \<open>content\<close>, \<open>imageUrl\<close>, \<open>style\<close>.
\<close>

theorem export_name_and_document:
  assumes "reachable s"
  shows "handleDownload s =
           [Download
              (''data:text/json;charset=utf-8,''
                 @ encodeURIComponent (render (json_of_presentation (processedPresentation s))))
              (spec_filename (title (processedPresentation s)))]
       \<and> decodeURIComponent (encodeURIComponent (JSON_stringify (processedPresentation s)))
           = Some (JSON_stringify (processedPresentation s))
       \<and> parse_json (JSON_stringify (processedPresentation s))
           = Some (json_of_presentation (processedPresentation s))
       \<and> (\<forall>c \<in> set (replace_space_runs ''_'' (title (processedPresentation s))).
             \<not> is_space c)
       \<and> spec_filename ''My  Talk'' = ''My_Talk.json''
       \<and> is_object_with_keys [''id'', ''createdAt'', ''title'', ''slides'']
             (json_of_presentation (processedPresentation s))
       \<and> json_member ''id'' (json_of_presentation (processedPresentation s))
           = Some (JStr (id' (processedPresentation s)))
       \<and> json_member ''createdAt'' (json_of_presentation (processedPresentation s))
           = Some (JStr (createdAt (processedPresentation s)))
       \<and> json_member ''title'' (json_of_presentation (processedPresentation s))
           = Some (JStr (title (processedPresentation s)))
       \<and> json_member ''slides'' (json_of_presentation (processedPresentation s))
           = Some (JArr (map json_of_element (slides (processedPresentation s))))
       \<and> list_all (is_object_with_keys slide_keys)
             (map json_of_element (slides (processedPresentation s)))"
proof -
  have name: "replace_space_runs ''_'' (title (processedPresentation s)) @ ''.json''
      = spec_filename (title (processedPresentation s))"
    by (simp add: spec_filename_def replace_is_spec_runs)
  have dl: "handleDownload s =
           [Download
              (''data:text/json;charset=utf-8,''
                 @ encodeURIComponent (render (json_of_presentation (processedPresentation s))))
              (spec_filename (title (processedPresentation s)))]"
    unfolding handleDownload_def Let_def JSON_stringify_def name ..
  have "\<forall>c \<in> set ''_''. \<not> is_space c"
    by (simp add: is_space_def)
  then have clean: "\<forall>c \<in> set (replace_space_runs ''_'' (title (processedPresentation s))).
      \<not> is_space c"
    by (rule no_space_left)
  have top: "is_object_with_keys [''id'', ''createdAt'', ''title'', ''slides'']
      (json_of_presentation (processedPresentation s))"
    by (simp add: is_object_with_keys_def json_of_presentation_def)
  have members:
    "json_member ''id'' (json_of_presentation (processedPresentation s))
       = Some (JStr (id' (processedPresentation s)))"
    "json_member ''createdAt'' (json_of_presentation (processedPresentation s))
       = Some (JStr (createdAt (processedPresentation s)))"
    "json_member ''title'' (json_of_presentation (processedPresentation s))
       = Some (JStr (title (processedPresentation s)))"
    "json_member ''slides'' (json_of_presentation (processedPresentation s))
       = Some (JArr (map json_of_element (slides (processedPresentation s))))"
    by (simp_all add: json_member_def json_of_presentation_def)
  from reachable_full_slides [OF assms]
  have elems: "list_all (is_object_with_keys slide_keys)
      (map json_of_element (slides (processedPresentation s)))"
    by (simp add: list_all_iff full_slide_json)
  have reads: "parse_json (JSON_stringify (processedPresentation s))
      = Some (json_of_presentation (processedPresentation s))"
    unfolding JSON_stringify_def by (rule parse_json_render)
  have decodes: "decodeURIComponent (encodeURIComponent (JSON_stringify (processedPresentation s)))
      = Some (JSON_stringify (processedPresentation s))"
    by (rule decode_encode)
  from dl decodes reads clean spec_filename_sample top members elems show ?thesis
    by (intro conjI)
qed

lemma demo_state_reachable: "reachable demo_state"
  unfolding demo_state_def by (rule reachable.rebuilt [OF reachable.first_render])

lemma demo_state_rendered: "rendered demo_state"
  by (simp add: rendered_def currentSlide_def array_get_def demo_slides demo_state_fields)

lemma demo_edited_reachable: "reachable demo_edited"
  unfolding demo_edited_def
proof (rule reachable.title_edited)
  show "reachable (fst (handleEditToggle demo_props demo_state))"
    by (rule reachable.toggled [OF demo_state_reachable demo_state_rendered])
  show "rendered (fst (handleEditToggle demo_props demo_state))"
    by (simp add: rendered_def currentSlide_def array_get_def handleEditToggle_def
        demo_slides demo_state_fields)
  show "isEditing (fst (handleEditToggle demo_props demo_state))"
    by (simp add: handleEditToggle_def demo_state_fields)
qed

lemma export_sample:
  "handleDownload demo_edited =
   [Download ''data:text/json;charset=utf-8,%7B%22id%22%3A%22id-2%22%2C%22createdAt%22%3A%22t2%22%2C%22title%22%3A%22My%20%20Talk%22%2C%22slides%22%3A%5B%7B%22title%22%3A%22Slide%201%22%2C%22content%22%3A%22Intro%20text%22%2C%22imageUrl%22%3A%22%22%2C%22style%22%3A%7B%7D%7D%2C%7B%22title%22%3A%22Slide%202%22%2C%22content%22%3A%22Second%20point%22%2C%22imageUrl%22%3A%22%22%2C%22style%22%3A%7B%7D%7D%2C%7B%22title%22%3A%22Slide%203%22%2C%22content%22%3A%22%5CnThird%20point%22%2C%22imageUrl%22%3A%22%22%2C%22style%22%3A%7B%7D%7D%5D%7D''
     ''My_Talk.json'']"
  by (simp add: demo_edited_def handleEditToggle_def handleDownload_def JSON_stringify_def
      json_of_presentation_def json_of_element_def quote_json_def quote_char_def
      title_onChange_def demo_slides demo_state_fields encodeURIComponent_def encode_char_def
      uri_unreserved_def percent_def is_space_def)

theorem export_name_and_document_witness:
  "reachable demo_edited
   \<and> handleDownload demo_edited =
       [Download
          (''data:text/json;charset=utf-8,''
             @ encodeURIComponent (render (json_of_presentation (processedPresentation demo_edited))))
          ''My_Talk.json'']
   \<and> parse_json (JSON_stringify (processedPresentation demo_edited))
     = Some (JObj
         [(''id'', JStr ''id-2''), (''createdAt'', JStr ''t2''), (''title'', JStr ''My  Talk''),
          (''slides'', JArr
             [JObj [(''title'', JStr ''Slide 1''), (''content'', JStr ''Intro text''),
                    (''imageUrl'', JStr []), (''style'', JObj [])],
              JObj [(''title'', JStr ''Slide 2''), (''content'', JStr ''Second point''),
                    (''imageUrl'', JStr []), (''style'', JObj [])],
              JObj [(''title'', JStr ''Slide 3''), (''content'', JStr ''\<newline>Third point''),
                    (''imageUrl'', JStr []), (''style'', JObj [])]])])
   \<and> list_all (is_object_with_keys slide_keys)
        (map json_of_element (slides (processedPresentation demo_edited)))"
proof -
  have t: "title (processedPresentation demo_edited) = ''My  Talk''"
    by (simp add: demo_edited_def title_onChange_def)
  have doc: "json_of_presentation (processedPresentation demo_edited)
     = JObj
         [(''id'', JStr ''id-2''), (''createdAt'', JStr ''t2''), (''title'', JStr ''My  Talk''),
          (''slides'', JArr
             [JObj [(''title'', JStr ''Slide 1''), (''content'', JStr ''Intro text''),
                    (''imageUrl'', JStr []), (''style'', JObj [])],
              JObj [(''title'', JStr ''Slide 2''), (''content'', JStr ''Second point''),
                    (''imageUrl'', JStr []), (''style'', JObj [])],
              JObj [(''title'', JStr ''Slide 3''), (''content'', JStr ''\<newline>Third point''),
                    (''imageUrl'', JStr []), (''style'', JObj [])]])]"
    by (simp add: demo_edited_def title_onChange_def handleEditToggle_def
        json_of_presentation_def json_of_element_def demo_slides demo_state_fields)
  from export_name_and_document [OF demo_edited_reachable] demo_edited_reachable
  show ?thesis
    by (simp add: t doc)
qed

end
